theory Spec2Isabelle
  imports Complex_Main
begin

section \<open>JavaScript values read by the story map\<close>

text \<open>
  A JavaScript Number is NaN, one of the two infinities, or a finite value. Finite values
  are kept as rationals; \<open>roundToDouble\<close> below maps an exact rational to the nearest
  binary64 value (round to nearest, ties to even), overflowing to an infinity.
\<close>

datatype jsnum = NaN | PosInfinity | NegInfinity | Finite rat

text \<open>
  The values a \<open>lat\<close>, \<open>lon\<close>, \<open>zoom\<close> or \<open>line\<close> field of a slide's location holds
  after \<open>JSON.parse\<close>: a missing field reads as \<open>undefined\<close>. Arrays and nested objects
  in these fields are not modelled.
\<close>

datatype jsval = JUndefined | JNull | JBool bool | JNumber jsnum | JString string

definition isNaN :: "jsnum \<Rightarrow> bool" where
  "isNaN n = (n = NaN)"

definition isFiniteNum :: "jsnum \<Rightarrow> bool" where
  "isFiniteNum n = (case n of Finite _ \<Rightarrow> True | _ \<Rightarrow> False)"

subsection \<open>Rounding to binary64\<close>

fun bitLength :: "nat \<Rightarrow> nat" where
  "bitLength n = (if n = 0 then 0 else Suc (bitLength (n div 2)))"

declare bitLength.simps [simp del]

text \<open>\<open>ilog2 q\<close> is the exponent \<open>e\<close> with \<open>2^e \<le> q < 2^(e+1)\<close>, for \<open>q > 0\<close>.\<close>

definition ilog2 :: "rat \<Rightarrow> int" where
  "ilog2 q =
     (if 1 \<le> q then int (bitLength (nat \<lfloor>q\<rfloor>)) - 1
      else (let r = 1 / q; k = bitLength (nat \<lfloor>r\<rfloor>) - 1
            in if r = 2 ^ k then - int k else - int k - 1))"

definition pow2 :: "int \<Rightarrow> rat" where
  "pow2 e = (if 0 \<le> e then 2 ^ nat e else 1 / 2 ^ nat (- e))"

definition roundHalfEven :: "rat \<Rightarrow> int" where
  "roundHalfEven q =
     (let f = \<lfloor>q\<rfloor>; r = q - of_int f
      in if r < 1 / 2 then f
         else if 1 / 2 < r then f + 1
         else if even f then f else f + 1)"

text \<open>
  The nearest binary64 value of a positive rational: 53 significant bits, the quantum
  \<open>2^s\<close> never below \<open>2^-1074\<close> (subnormals), and anything that rounds to \<open>2^1024\<close> or
  more is an infinity (\<open>None\<close>), which needs a quantum of \<open>2^971\<close> at least.
\<close>

definition roundPos :: "rat \<Rightarrow> rat option" where
  "roundPos q =
     (let s = max (ilog2 q - 52) (- 1074);
          v = of_int (roundHalfEven (q / pow2 s)) * pow2 s
      in if s < 971 then Some v else if pow2 1024 \<le> v then None else Some v)"

definition roundToDouble :: "rat \<Rightarrow> jsnum" where
  "roundToDouble q =
     (if q = 0 then Finite 0
      else if 0 < q then (case roundPos q of None \<Rightarrow> PosInfinity | Some v \<Rightarrow> Finite v)
      else (case roundPos (- q) of None \<Rightarrow> NegInfinity | Some v \<Rightarrow> Finite (- v)))"

subsection \<open>parseFloat\<close>

text \<open>
  \<open>parseFloat\<close> skips leading white space; of JavaScript's white space the ASCII characters
  (tab, line feed, vertical tab, form feed, carriage return, space) are modelled.
\<close>

definition isWhiteSpace :: "char \<Rightarrow> bool" where
  "isWhiteSpace c = (of_char c \<in> {9, 10, 11, 12, 13, 32 :: nat})"

definition isDigit :: "char \<Rightarrow> bool" where
  "isDigit c = (48 \<le> (of_char c :: nat) \<and> (of_char c :: nat) \<le> 57)"

definition digitValue :: "char \<Rightarrow> nat" where
  "digitValue c = of_char c - 48"

definition decimalValue :: "string \<Rightarrow> nat" where
  "decimalValue ds = foldl (\<lambda>a c. 10 * a + digitValue c) 0 ds"

fun startsWith :: "string \<Rightarrow> string \<Rightarrow> bool" where
  "startsWith s [] = True"
| "startsWith [] (p # ps) = False"
| "startsWith (c # cs) (p # ps) = (c = p \<and> startsWith cs ps)"

text \<open>
  The exponent part \<open>e\<close>/\<open>E\<close>, an optional sign and at least one digit; a prefix that
  is not a complete exponent part is not consumed and counts as exponent 0.
\<close>

definition exponentPart :: "string \<Rightarrow> int" where
  "exponentPart s =
     (case s of
        [] \<Rightarrow> 0
      | c # r \<Rightarrow>
          if c = CHR ''e'' \<or> c = CHR ''E'' then
            (case r of
               [] \<Rightarrow> 0
             | d # r' \<Rightarrow>
                 if d = CHR ''-'' then
                   (if takeWhile isDigit r' = [] then 0
                    else - int (decimalValue (takeWhile isDigit r')))
                 else if d = CHR ''+'' then int (decimalValue (takeWhile isDigit r'))
                 else int (decimalValue (takeWhile isDigit r)))
          else 0)"

text \<open>
  The longest prefix that is a \<open>StrUnsignedDecimalLiteral\<close>: \<open>Infinity\<close>, or digits with
  an optional fraction and exponent, or a fraction starting with the point. \<open>None\<close> is
  "no such prefix"; \<open>Some None\<close> is the literal \<open>Infinity\<close>; \<open>Some (Some q)\<close> is the
  mathematical value of a decimal literal.
\<close>

definition unsignedLiteral :: "string \<Rightarrow> rat option option" where
  "unsignedLiteral s =
     (if startsWith s ''Infinity'' then Some None
      else
        (let ip = takeWhile isDigit s;
             r1 = dropWhile isDigit s;
             fp = (case r1 of [] \<Rightarrow> [] | c # r \<Rightarrow> if c = CHR ''.'' then takeWhile isDigit r else []);
             r2 = (case r1 of
                     [] \<Rightarrow> []
                   | c # r \<Rightarrow> if c = CHR ''.'' then dropWhile isDigit r else r1)
         in if ip = [] \<and> fp = [] then None
            else
              (let e = exponentPart r2 - int (length fp);
                   m = of_nat (decimalValue (ip @ fp))
               in Some (Some (if 0 \<le> e then m * 10 ^ nat e else m / 10 ^ nat (- e))))))"

definition parseFloatString :: "string \<Rightarrow> jsnum" where
  "parseFloatString inputString =
     (let trimmed = dropWhile isWhiteSpace inputString
      in case trimmed of
           [] \<Rightarrow> NaN
         | c # r \<Rightarrow>
             if c = CHR ''-'' then
               (case unsignedLiteral r of
                  None \<Rightarrow> NaN
                | Some None \<Rightarrow> NegInfinity
                | Some (Some q) \<Rightarrow> roundToDouble (- q))
             else
               (case unsignedLiteral (if c = CHR ''+'' then r else trimmed) of
                  None \<Rightarrow> NaN
                | Some None \<Rightarrow> PosInfinity
                | Some (Some q) \<Rightarrow> roundToDouble q))"

text \<open>
  \<open>parseFloat(v)\<close> parses \<open>ToString(v)\<close>. The strings of \<open>undefined\<close>, \<open>null\<close>,
  \<open>true\<close>, \<open>false\<close> and \<open>NaN\<close> have no numeric prefix; a Number prints as a literal
  that parses back to itself.
\<close>

fun parseFloat :: "jsval \<Rightarrow> jsnum" where
  "parseFloat JUndefined = NaN"
| "parseFloat JNull = NaN"
| "parseFloat (JBool b) = NaN"
| "parseFloat (JNumber n) = n"
| "parseFloat (JString s) = parseFloatString s"

section \<open>Slides and locations\<close>

record location =
  lat :: jsval
  lon :: jsval
  zoom :: jsval
  line :: jsval

text \<open>
  A slide; only its optional \<open>location\<close> matters to the map engine. The headline stands
  for the slide's text, media and background, which the content renderer shows.
\<close>

record slide =
  headline :: string
  location :: "location option"

text \<open>
  \<open>isValidLocation\<close> of \<^verbatim>\<open>storymap-core.js\<close>; the JavaScript returns a truthy or falsy
  value, read here as a boolean.
\<close>

definition isValidLocation :: "location option \<Rightarrow> bool" where
  "isValidLocation loc =
     (case loc of
        None \<Rightarrow> False
      | Some l \<Rightarrow>
          lat l \<noteq> JNull \<and> lat l \<noteq> JUndefined \<and> \<not> isNaN (parseFloat (lat l)) \<and>
          lon l \<noteq> JNull \<and> lon l \<noteq> JUndefined \<and> \<not> isNaN (parseFloat (lon l)))"


section \<open>The story map instance\<close>

text \<open>
  A point feature of the \<^verbatim>\<open>inactive-markers\<close> or \<^verbatim>\<open>active-marker\<close> GeoJSON source, and an
  entry of \<^verbatim>\<open>this.lines\<close>; \<open>lineId\<close> is the number \<open>i\<close> of the layer id \<^verbatim>\<open>line-i\<close>.
\<close>

record feature =
  slideIndex :: int
  isActive :: bool
  isClickable :: bool
  coordinates :: "jsnum \<times> jsnum"

record lineEntry =
  lineId :: int
  targetSlideIndex :: int

text \<open>The two values of a line layer's \<^verbatim>\<open>line-color\<close>, from \<^verbatim>\<open>config.styling\<close>.\<close>

datatype lineColor = LineColor | LineColorActive

datatype direction = DirNext | DirPrev | DirNone

datatype jserror = TypeError | Error string

text \<open>
  The two nested \<^verbatim>\<open>setTimeout\<close> callbacks of \<open>animateSlideTransition\<close>: the first swaps
  the content to the slide it closed over and schedules the second, which releases
  \<open>isAnimating\<close>.
\<close>

datatype timer = ExitTimer slide | EntranceTimer

text \<open>
  The fields of a \<^verbatim>\<open>StoryMap\<close> object together with what it reads and writes on the map
  and the page. A value of this record is an instance whose \<open>initialize\<close> has completed:
  \<open>storyData\<close> is the loaded array and \<^verbatim>\<open>this.map\<close> is the map object, so the guards
  \<^verbatim>\<open>if (!this.map) return\<close> and \<^verbatim>\<open>!this.storyData\<close> never fire and are not repeated below.
  \<open>inactiveMarkers\<close> and \<open>activeMarker\<close> are the feature arrays of the two marker sources
  (\<open>None\<close> while the source does not exist); \<open>lineLayers\<close> lists the line layers with
  their colour; \<open>camera\<close> is the centre of the last \<^verbatim>\<open>flyTo\<close>; \<open>displayed\<close> is the slide whose
  text is on the page; the buttons hold their \<^verbatim>\<open>disabled\<close> flag when the element exists.
  Slide indices are integers.
\<close>

record storymap =
  animations :: bool
  keyboardNavigation :: bool
  storyData :: "slide list"
  currentSlideIndex :: int
  isAnimating :: bool
  lines :: "lineEntry list"
  inactiveMarkers :: "feature list option"
  activeMarker :: "feature list option"
  lineLayers :: "(int \<times> lineColor) list"
  camera :: "(jsnum \<times> jsnum) option"
  contentWrapper :: bool
  displayed :: "slide option"
  timers :: "timer list"
  prevBtn :: "bool option"
  nextBtn :: "bool option"
  restartBtn :: "bool option"

definition andThen :: "'e + 'a \<Rightarrow> ('a \<Rightarrow> 'e + 'b) \<Rightarrow> 'e + 'b" where
  "andThen r f = (case r of Inl e \<Rightarrow> Inl e | Inr v \<Rightarrow> f v)"

text \<open>\<^verbatim>\<open>storyData[i]\<close>: \<open>None\<close> is \<open>undefined\<close>.\<close>

definition slideAt :: "slide list \<Rightarrow> int \<Rightarrow> slide option" where
  "slideAt sd i = (if 0 \<le> i \<and> i < int (length sd) then Some (sd ! nat i) else None)"

text \<open>\<^verbatim>\<open>Array.prototype.findIndex\<close>; \<open>None\<close> is the result \<open>-1\<close>.\<close>

fun findIndex :: "('a \<Rightarrow> bool) \<Rightarrow> 'a list \<Rightarrow> nat option" where
  "findIndex P [] = None"
| "findIndex P (x # xs) =
     (if P x then Some 0 else (case findIndex P xs of None \<Rightarrow> None | Some k \<Rightarrow> Some (Suc k)))"

subsection \<open>Camera\<close>

definition flyToSlide :: "int \<Rightarrow> storymap \<Rightarrow> storymap" where
  "flyToSlide idx s =
     (case slideAt (storyData s) idx of
        None \<Rightarrow> s
      | Some sl \<Rightarrow>
          (case location sl of
             None \<Rightarrow> s
           | Some l \<Rightarrow>
               if isValidLocation (Some l)
               then s\<lparr>camera := Some (parseFloat (lon l), parseFloat (lat l))\<rparr>
               else s))"

subsection \<open>Lines\<close>

text \<open>
  \<open>createLineSegment\<close> adds the layer \<^verbatim>\<open>line-i\<close> in the inactive colour and records the line
  in \<^verbatim>\<open>this.lines\<close>; the great-circle geometry of the layer's source is not modelled.
\<close>

definition createLineSegment :: "int \<Rightarrow> storymap \<Rightarrow> storymap" where
  "createLineSegment index s =
     s\<lparr>lineLayers := lineLayers s @ [(index, LineColor)],
       lines := lines s @ [\<lparr>lineId = index, targetSlideIndex = index + 1\<rparr>]\<rparr>"

definition wantsLine :: "slide \<Rightarrow> slide \<Rightarrow> bool" where
  "wantsLine currentSlide nextSlide =
     (case location currentSlide of
        None \<Rightarrow> False
      | Some l \<Rightarrow>
          line l = JBool True \<and> isValidLocation (location currentSlide) \<and>
          isValidLocation (location nextSlide))"

text \<open>The loop of \<open>createAllLines\<close>, at index \<open>i\<close> with the slides from \<open>i\<close> on.\<close>

fun createLinesFrom :: "nat \<Rightarrow> slide list \<Rightarrow> storymap \<Rightarrow> storymap" where
  "createLinesFrom i (currentSlide # nextSlide # rest) s =
     createLinesFrom (Suc i) (nextSlide # rest)
       (if wantsLine currentSlide nextSlide then createLineSegment (int i) s else s)"
| "createLinesFrom i [currentSlide] s = s"
| "createLinesFrom i [] s = s"

definition createAllLines :: "storymap \<Rightarrow> storymap" where
  "createAllLines s = createLinesFrom 0 (storyData s) s"

definition setPaintProperty :: "int \<Rightarrow> lineColor \<Rightarrow> (int \<times> lineColor) list \<Rightarrow> (int \<times> lineColor) list" where
  "setPaintProperty layer c layers = map (\<lambda>(i, old). if i = layer then (i, c) else (i, old)) layers"

definition updateLineColors :: "storymap \<Rightarrow> storymap" where
  "updateLineColors s =
     s\<lparr>lineLayers :=
         foldl (\<lambda>layers entry.
                  if targetSlideIndex entry = currentSlideIndex s
                  then setPaintProperty (lineId entry) LineColorActive layers
                  else setPaintProperty (lineId entry) LineColor layers)
               (lineLayers s) (lines s)\<rparr>"

subsection \<open>Markers\<close>

definition inactiveMarkerFeature :: "nat \<times> slide \<Rightarrow> feature option" where
  "inactiveMarkerFeature p =
     (case p of (index, sl) \<Rightarrow>
        (case location sl of
           None \<Rightarrow> None
         | Some l \<Rightarrow>
             if isValidLocation (Some l)
             then Some \<lparr>slideIndex = int index, isActive = False, isClickable = True,
                        coordinates = (parseFloat (lon l), parseFloat (lat l))\<rparr>
             else None))"

definition createInactiveMarkers :: "storymap \<Rightarrow> storymap" where
  "createInactiveMarkers s =
     s\<lparr>inactiveMarkers :=
         Some (List.map_filter inactiveMarkerFeature (zip [0..<length (storyData s)] (storyData s)))\<rparr>"

definition createActiveMarker :: "storymap \<Rightarrow> storymap" where
  "createActiveMarker s = s\<lparr>activeMarker := Some []\<rparr>"

definition getPreviouslyActiveMarkerIndex :: "storymap \<Rightarrow> int option" where
  "getPreviouslyActiveMarkerIndex s =
     (case activeMarker s of
        None \<Rightarrow> None
      | Some [] \<Rightarrow> None
      | Some (f # fs) \<Rightarrow> Some (slideIndex f))"

text \<open>\<open>moveMarkerToInactive\<close> never reads its parameter.\<close>

definition moveMarkerToInactive :: "int \<Rightarrow> storymap \<Rightarrow> storymap" where
  "moveMarkerToInactive idx s =
     (case activeMarker s of
        None \<Rightarrow> s
      | Some [] \<Rightarrow> s
      | Some (markerFeature # fs) \<Rightarrow>
          (let s1 = (case inactiveMarkers s of
                       None \<Rightarrow> s
                     | Some inactive \<Rightarrow>
                         s\<lparr>inactiveMarkers := Some (inactive @ [markerFeature\<lparr>isActive := False\<rparr>])\<rparr>)
           in s1\<lparr>activeMarker := Some []\<rparr>))"

definition moveMarkerToActive :: "int \<Rightarrow> storymap \<Rightarrow> storymap" where
  "moveMarkerToActive idx s =
     (case inactiveMarkers s of
        None \<Rightarrow> s
      | Some inactive \<Rightarrow>
          (case findIndex (\<lambda>f. slideIndex f = idx) inactive of
             None \<Rightarrow> s
           | Some markerIndex \<Rightarrow>
               (let markerFeature = inactive ! markerIndex;
                    s1 = (case activeMarker s of
                            None \<Rightarrow> s
                          | Some old \<Rightarrow> s\<lparr>activeMarker := Some [markerFeature\<lparr>isActive := True\<rparr>]\<rparr>)
                in s1\<lparr>inactiveMarkers :=
                        Some (take markerIndex inactive @ drop (Suc markerIndex) inactive)\<rparr>)))"

text \<open>
  Reading \<^verbatim>\<open>this.storyData[this.currentSlideIndex].location\<close> throws a TypeError when the
  slide is \<open>undefined\<close>.
\<close>

definition createAllMarkers :: "storymap \<Rightarrow> jserror + storymap" where
  "createAllMarkers s =
     (let s1 = createActiveMarker (createInactiveMarkers s)
      in case slideAt (storyData s1) (currentSlideIndex s1) of
           None \<Rightarrow> Inl TypeError
         | Some sl \<Rightarrow>
             if isValidLocation (location sl)
             then Inr (moveMarkerToActive (currentSlideIndex s1) s1)
             else Inr s1)"

definition updateMarkerColors :: "storymap \<Rightarrow> jserror + storymap" where
  "updateMarkerColors s =
     (let previousActiveIndex = getPreviouslyActiveMarkerIndex s;
          s1 = (case previousActiveIndex of
                  None \<Rightarrow> s
                | Some p \<Rightarrow> if p \<noteq> currentSlideIndex s then moveMarkerToInactive p s else s)
      in if Some (currentSlideIndex s1) \<noteq> previousActiveIndex
         then (case slideAt (storyData s1) (currentSlideIndex s1) of
                 None \<Rightarrow> Inl TypeError
               | Some sl \<Rightarrow>
                   if isValidLocation (location sl)
                   then Inr (moveMarkerToActive (currentSlideIndex s1) s1)
                   else Inr s1)
         else Inr s1)"

definition updateMapElements :: "storymap \<Rightarrow> jserror + storymap" where
  "updateMapElements s = updateMarkerColors (updateLineColors s)"

subsection \<open>Content, buttons and the slide update\<close>

definition updateSlideContent :: "slide \<Rightarrow> storymap \<Rightarrow> storymap" where
  "updateSlideContent sl s = s\<lparr>displayed := Some sl\<rparr>"

definition animateSlideTransition :: "slide \<Rightarrow> direction \<Rightarrow> storymap \<Rightarrow> storymap" where
  "animateSlideTransition sl dir s = s\<lparr>isAnimating := True, timers := timers s @ [ExitTimer sl]\<rparr>"

definition updateContent :: "slide \<Rightarrow> direction \<Rightarrow> storymap \<Rightarrow> storymap" where
  "updateContent sl dir s =
     (if \<not> contentWrapper s then s
      else if dir \<noteq> DirNone \<and> animations s \<and> \<not> isAnimating s
      then animateSlideTransition sl dir s
      else updateSlideContent sl s)"

definition updateButtonStates :: "storymap \<Rightarrow> storymap" where
  "updateButtonStates s =
     (let canGoBack = (currentSlideIndex s > 0);
          canGoNext = (currentSlideIndex s < int (length (storyData s)) - 1)
      in s\<lparr>prevBtn := map_option (\<lambda>old. \<not> canGoBack) (prevBtn s),
           restartBtn := map_option (\<lambda>old. \<not> canGoBack) (restartBtn s),
           nextBtn := map_option (\<lambda>old. \<not> canGoNext) (nextBtn s)\<rparr>)"

text \<open>
  \<open>updateSlide\<close>; \<open>updateProgress\<close> and \<open>updateBackground\<close> only write text and styles of
  the page and are left out.
\<close>

definition updateSlide :: "direction \<Rightarrow> storymap \<Rightarrow> jserror + storymap" where
  "updateSlide dir s =
     (case slideAt (storyData s) (currentSlideIndex s) of
        None \<Rightarrow> Inr s
      | Some sl \<Rightarrow>
          (let s1 = updateContent sl dir s;
               s2 = (if isValidLocation (location sl) then flyToSlide (currentSlideIndex s1) s1 else s1);
               s3 = updateButtonStates s2
           in updateMapElements s3))"

subsection \<open>Navigation\<close>

definition navigatePrevious :: "storymap \<Rightarrow> jserror + storymap" where
  "navigatePrevious s =
     (if currentSlideIndex s > 0 \<and> \<not> isAnimating s
      then updateSlide DirPrev (s\<lparr>currentSlideIndex := currentSlideIndex s - 1\<rparr>)
      else Inr s)"

definition navigateNext :: "storymap \<Rightarrow> jserror + storymap" where
  "navigateNext s =
     (if currentSlideIndex s < int (length (storyData s)) - 1 \<and> \<not> isAnimating s
      then updateSlide DirNext (s\<lparr>currentSlideIndex := currentSlideIndex s + 1\<rparr>)
      else Inr s)"

text \<open>
  \<open>restart\<close> looks the first valid slide up with \<^verbatim>\<open>find\<close> and takes its position with
  \<^verbatim>\<open>indexOf\<close>, which is the position where \<^verbatim>\<open>find\<close> stopped.
\<close>

definition restart :: "storymap \<Rightarrow> jserror + storymap" where
  "restart s =
     (if \<not> isAnimating s
      then (let s1 = s\<lparr>currentSlideIndex := 0\<rparr>;
                s2 = (case findIndex (\<lambda>sl. isValidLocation (location sl)) (storyData s1) of
                        None \<Rightarrow> s1
                      | Some k \<Rightarrow> flyToSlide (int k) s1)
            in updateSlide DirNone s2)
      else Inr s)"

definition navigateToSlide :: "int \<Rightarrow> storymap \<Rightarrow> jserror + storymap" where
  "navigateToSlide targetIndex s =
     (if targetIndex \<ge> 0 \<and> targetIndex < int (length (storyData s)) \<and> \<not> isAnimating s
      then updateSlide DirNone (s\<lparr>currentSlideIndex := targetIndex\<rparr>)
      else Inr s)"

text \<open>The click handler of both marker layers, given the features under the pointer.\<close>

definition onMarkerClick :: "feature list \<Rightarrow> storymap \<Rightarrow> jserror + storymap" where
  "onMarkerClick features s =
     (case features of
        [] \<Rightarrow> Inr s
      | f # fs \<Rightarrow>
          if slideIndex f \<noteq> currentSlideIndex s \<and> \<not> isAnimating s
          then navigateToSlide (slideIndex f) s
          else Inr s)"

datatype key = ArrowLeft | ArrowRight | OtherKey

definition onKeyDown :: "key \<Rightarrow> storymap \<Rightarrow> jserror + storymap" where
  "onKeyDown k s =
     (if keyboardNavigation s
      then (case k of ArrowLeft \<Rightarrow> navigatePrevious s | ArrowRight \<Rightarrow> navigateNext s | OtherKey \<Rightarrow> Inr s)
      else Inr s)"

definition fireTimer :: "storymap \<Rightarrow> storymap" where
  "fireTimer s =
     (case timers s of
        [] \<Rightarrow> s
      | ExitTimer sl # rest \<Rightarrow> (updateSlideContent sl s)\<lparr>timers := rest @ [EntranceTimer]\<rparr>
      | EntranceTimer # rest \<Rightarrow> s\<lparr>isAnimating := False, timers := rest\<rparr>)"

text \<open>The handler of the map's \<^verbatim>\<open>load\<close> event.\<close>

definition onMapLoad :: "storymap \<Rightarrow> jserror + storymap" where
  "onMapLoad s = andThen (createAllMarkers (createAllLines s)) (updateSlide DirNone)"

text \<open>
  Everything that can happen to an instance: the three buttons, a key, a click on a marker
  layer, the public methods \<open>goToSlide\<close>, \<open>next\<close> and \<open>previous\<close>, the next animation timer
  and the map's \<^verbatim>\<open>load\<close> event, which the map fires once.
\<close>

datatype event =
  ClickPrev | ClickNext | ClickRestart | KeyDown key | MarkerClick "feature list"
  | GoToSlide int | ApiNext | ApiPrevious | TimerFires | MapLoad

fun handle :: "event \<Rightarrow> storymap \<Rightarrow> jserror + storymap" where
  "handle ClickPrev s = (if prevBtn s = None then Inr s else navigatePrevious s)"
| "handle ClickNext s = (if nextBtn s = None then Inr s else navigateNext s)"
| "handle ClickRestart s = (if restartBtn s = None then Inr s else restart s)"
| "handle (KeyDown k) s = onKeyDown k s"
| "handle (MarkerClick features) s =
     (if inactiveMarkers s = None then Inr s else onMarkerClick features s)"
| "handle (GoToSlide i) s = navigateToSlide i s"
| "handle ApiNext s = navigateNext s"
| "handle ApiPrevious s = navigatePrevious s"
| "handle TimerFires s = Inr (fireTimer s)"
| "handle MapLoad s = (if inactiveMarkers s = None then onMapLoad s else Inr s)"

fun run :: "event list \<Rightarrow> storymap \<Rightarrow> jserror + storymap" where
  "run [] s = Inr s"
| "run (ev # evs) s = andThen (handle ev s) (run evs)"

section \<open>Initialisation\<close>

text \<open>
  What \<^verbatim>\<open>this.storyData\<close> receives from a loader: an array of slides, or a JSON value that
  is no array (it has no \<^verbatim>\<open>find\<close>).
\<close>

datatype payload = SlideArray "slide list" | NotAnArray

text \<open>
  The document that \<^verbatim>\<open>response.json()\<close> yields, as the default loader reads it:
  \<^verbatim>\<open>data.storymap?.slides\<close> and \<^verbatim>\<open>data.slides\<close> when they are truthy, and the document itself.
\<close>

record jsondoc =
  storymapSlides :: "payload option"
  docSlides :: "payload option"
  docItself :: payload

text \<open>
  The configuration: \<open>dataLoader\<close> is the outcome of awaiting \<^verbatim>\<open>config.dataLoader(config)\<close>
  (\<open>None\<close> when no loader is configured); \<open>mapInitializer\<close> and \<open>mapProvider\<close> tell whether
  the option is set.
\<close>

record config =
  dataLoader :: "(jserror + payload) option"
  jsonUrl :: "string option"
  mapInitializer :: bool
  mapProvider :: bool
  featureAnimations :: bool
  featureKeyboardNavigation :: bool

text \<open>
  The object while \<open>initialize\<close> runs: \<open>loadedData\<close> is \<^verbatim>\<open>this.storyData\<close> (\<open>None\<close> is
  \<open>null\<close>), \<open>hasMap\<close> tells whether \<^verbatim>\<open>this.map\<close> is set, \<open>listening\<close> whether the page's
  event listeners are attached, \<open>console\<close> what \<^verbatim>\<open>console.error\<close> has printed.
\<close>

record booting =
  loadedData :: "payload option"
  hasMap :: bool
  listening :: bool
  console :: "jserror list"

definition newInstance :: booting where
  "newInstance = \<lparr>loadedData = None, hasMap = False, listening = False, console = []\<rparr>"

text \<open>
  \<open>fetched\<close> is the outcome of \<^verbatim>\<open>fetch(jsonUrl)\<close> followed by \<^verbatim>\<open>response.json()\<close>: an
  error, or the parsed document, where \<open>None\<close> is the JSON document \<^verbatim>\<open>null\<close>. Reading
  \<^verbatim>\<open>data.storymap\<close> of \<^verbatim>\<open>null\<close> throws a TypeError before \<^verbatim>\<open>this.storyData\<close> is assigned.
\<close>

definition loadStoryData ::
    "config \<Rightarrow> jserror + jsondoc option \<Rightarrow> booting \<Rightarrow> jserror + booting" where
  "loadStoryData cfg fetched st =
     (case dataLoader cfg of
        Some outcome \<Rightarrow>
          (case outcome of Inl e \<Rightarrow> Inl e | Inr d \<Rightarrow> Inr (st\<lparr>loadedData := Some d\<rparr>))
      | None \<Rightarrow>
          (if jsonUrl cfg \<noteq> None \<and> jsonUrl cfg \<noteq> Some []
           then (case fetched of
                   Inl e \<Rightarrow> Inl e
                 | Inr None \<Rightarrow> Inl TypeError
                 | Inr (Some doc) \<Rightarrow>
                     Inr (st\<lparr>loadedData :=
                              Some (case storymapSlides doc of
                                      Some p \<Rightarrow> p
                                    | None \<Rightarrow> (case docSlides doc of Some p \<Rightarrow> p | None \<Rightarrow> docItself doc))\<rparr>))
           else Inl (Error ''No data source provided. Please specify jsonUrl or dataLoader.'')))"

definition initializeMap :: "config \<Rightarrow> booting \<Rightarrow> jserror + booting" where
  "initializeMap cfg st =
     (case loadedData st of
        None \<Rightarrow> Inl TypeError
      | Some NotAnArray \<Rightarrow> Inl TypeError
      | Some (SlideArray sd) \<Rightarrow>
          (let firstValidSlide = List.find (\<lambda>sl. isValidLocation (location sl)) sd
           in if mapInitializer cfg \<and> firstValidSlide \<noteq> None then Inr (st\<lparr>hasMap := True\<rparr>)
              else if mapProvider cfg \<and> firstValidSlide \<noteq> None then Inr (st\<lparr>hasMap := True\<rparr>)
              else Inl (Error ''No map initialization method provided.'')))"

definition setupEventListeners :: "booting \<Rightarrow> booting" where
  "setupEventListeners st = st\<lparr>listening := True\<rparr>"

text \<open>
  \<open>initialize\<close>: the \<^verbatim>\<open>try\<close> block runs the three steps; the \<^verbatim>\<open>catch\<close> block prints the error
  and returns. A step that throws has not written to the object before it throws.
\<close>

definition initialize ::
    "config \<Rightarrow> jserror + jsondoc option \<Rightarrow> booting \<Rightarrow> jserror + booting" where
  "initialize cfg fetched st =
     (case loadStoryData cfg fetched st of
        Inl error \<Rightarrow> Inr (st\<lparr>console := console st @ [error]\<rparr>)
      | Inr st1 \<Rightarrow>
          (case initializeMap cfg st1 of
             Inl error \<Rightarrow> Inr (st1\<lparr>console := console st1 @ [error]\<rparr>)
           | Inr st2 \<Rightarrow> Inr (setupEventListeners st2)))"

text \<open>The elements of the page that the instance looks up by id.\<close>

record page =
  pageContentWrapper :: bool
  pagePrevBtn :: "bool option"
  pageNextBtn :: "bool option"
  pageRestartBtn :: "bool option"

text \<open>
  The instance that the constructor leaves once \<open>initialize\<close> has loaded the slides and
  created the map: slide 0, no animation, no lines, no marker sources yet.
\<close>

definition started :: "config \<Rightarrow> jserror + jsondoc option \<Rightarrow> page \<Rightarrow> storymap option" where
  "started cfg fetched pg =
     (case initialize cfg fetched newInstance of
        Inl e \<Rightarrow> None
      | Inr st \<Rightarrow>
          (case loadedData st of
             Some (SlideArray sd) \<Rightarrow>
               if hasMap st \<and> listening st
               then Some \<lparr>animations = featureAnimations cfg,
                          keyboardNavigation = featureKeyboardNavigation cfg,
                          storyData = sd, currentSlideIndex = 0, isAnimating = False,
                          lines = [], inactiveMarkers = None, activeMarker = None,
                          lineLayers = [], camera = None,
                          contentWrapper = pageContentWrapper pg, displayed = None, timers = [],
                          prevBtn = pagePrevBtn pg, nextBtn = pageNextBtn pg,
                          restartBtn = pageRestartBtn pg\<rparr>
               else None
           | _ \<Rightarrow> None))"

section \<open>Language switching\<close>

text \<open>
  \<open>switchLanguageWithPosition\<close> of the multilingual provider, as far as the slide index
  goes: \<open>newSlides\<close> is what \<open>switchLanguage\<close> returned (\<open>None\<close> for \<open>null\<close>, an unknown
  language), and the result is the pair \<open>newSlides\<close>, \<open>targetSlideIndex\<close>.
\<close>

definition switchLanguageWithPosition ::
    "slide list option \<Rightarrow> int \<Rightarrow> bool \<Rightarrow> (slide list \<times> int) option" where
  "switchLanguageWithPosition newSlides currentIndex maintainSlidePosition =
     (case newSlides of
        None \<Rightarrow> None
      | Some slides \<Rightarrow>
          if \<not> maintainSlidePosition then Some (slides, 0)
          else (let t1 = (if currentIndex \<ge> int (length slides) then int (length slides) - 1
                          else currentIndex);
                    t2 = (if t1 < 0 then 0 else t1)
                in Some (slides, t2)))"

text \<open>Number arithmetic of JavaScript on the cases that occur here.\<close>

definition jsDivide :: "int \<Rightarrow> int \<Rightarrow> jsnum" where
  "jsDivide a b =
     (if b = 0 then (if a = 0 then NaN else if 0 < a then PosInfinity else NegInfinity)
      else roundToDouble (of_int a / of_int b))"

definition jsTimes :: "jsnum \<Rightarrow> int \<Rightarrow> jsnum" where
  "jsTimes x n =
     (case x of
        NaN \<Rightarrow> NaN
      | PosInfinity \<Rightarrow> (if n = 0 then NaN else if 0 < n then PosInfinity else NegInfinity)
      | NegInfinity \<Rightarrow> (if n = 0 then NaN else if 0 < n then NegInfinity else PosInfinity)
      | Finite q \<Rightarrow> roundToDouble (q * of_int n))"

definition mathFloor :: "jsnum \<Rightarrow> jsnum" where
  "mathFloor x = (case x of Finite q \<Rightarrow> Finite (of_int \<lfloor>q\<rfloor>) | other \<Rightarrow> other)"

definition mathMin :: "jsnum \<Rightarrow> int \<Rightarrow> jsnum" where
  "mathMin x n =
     (case x of
        NaN \<Rightarrow> NaN
      | PosInfinity \<Rightarrow> Finite (of_int n)
      | NegInfinity \<Rightarrow> NegInfinity
      | Finite q \<Rightarrow> Finite (min q (of_int n)))"

text \<open>
  The index that \<open>switchLanguage\<close> of the multilingual example computes, from the current
  index and the lengths of the old and the new slide array.
\<close>

definition newSlideIndex :: "int \<Rightarrow> nat \<Rightarrow> nat \<Rightarrow> jsnum" where
  "newSlideIndex currentIndex oldLength newLength =
     (let currentSlideRatio = jsDivide currentIndex (int oldLength)
      in mathMin (mathFloor (jsTimes currentSlideRatio (int newLength))) (int newLength - 1))"

section \<open>Invariants\<close>

definition validIndex :: "slide list \<Rightarrow> int \<Rightarrow> bool" where
  "validIndex sd i = (case slideAt sd i of None \<Rightarrow> False | Some sl \<Rightarrow> isValidLocation (location sl))"

definition inRange :: "storymap \<Rightarrow> bool" where
  "inRange s = (0 \<le> currentSlideIndex s \<and> currentSlideIndex s < int (length (storyData s)))"

text \<open>The partition of the valid slide indices into the two marker sources.\<close>

definition partitioned :: "slide list \<Rightarrow> feature list \<Rightarrow> feature list \<Rightarrow> bool" where
  "partitioned sd inactive active =
     (length active \<le> 1 \<and> distinct (map slideIndex (inactive @ active)) \<and>
      set (map slideIndex (inactive @ active)) = {i. validIndex sd i})"

definition markersOk :: "storymap \<Rightarrow> bool" where
  "markersOk s =
     (case inactiveMarkers s of
        None \<Rightarrow> activeMarker s = None
      | Some inactive \<Rightarrow>
          (case activeMarker s of
             None \<Rightarrow> False
           | Some active \<Rightarrow>
               partitioned (storyData s) inactive active \<and>
               map slideIndex active =
                 (if validIndex (storyData s) (currentSlideIndex s) then [currentSlideIndex s] else [])))"

definition wantsLineAt :: "slide list \<Rightarrow> nat \<Rightarrow> bool" where
  "wantsLineAt sd i = wantsLine (sd ! i) (sd ! Suc i)"

definition expectedLines :: "slide list \<Rightarrow> lineEntry list" where
  "expectedLines sd =
     map (\<lambda>i. \<lparr>lineId = int i, targetSlideIndex = int i + 1\<rparr>)
         (filter (wantsLineAt sd) [0..<length sd - 1])"

definition styled :: "int \<Rightarrow> lineEntry \<Rightarrow> int \<times> lineColor" where
  "styled current entry =
     (lineId entry, if targetSlideIndex entry = current then LineColorActive else LineColor)"

definition buttonsOk :: "storymap \<Rightarrow> bool" where
  "buttonsOk s =
     (prevBtn s \<in> {None, Some (currentSlideIndex s = 0)} \<and>
      restartBtn s \<in> {None, Some (currentSlideIndex s = 0)} \<and>
      nextBtn s \<in> {None, Some (currentSlideIndex s = int (length (storyData s)) - 1)})"

definition linesOk :: "storymap \<Rightarrow> bool" where
  "linesOk s =
     (if inactiveMarkers s = None then lines s = [] \<and> lineLayers s = []
      else lines s = expectedLines (storyData s) \<and>
           lineLayers s = map (styled (currentSlideIndex s)) (lines s))"

text \<open>
  What a slide update needs to find: the index in range, and either no marker sources and
  no lines yet, or a partition in the marker sources and one layer per expected line.
\<close>

definition prepared :: "storymap \<Rightarrow> bool" where
  "prepared s =
     (inRange s \<and>
      (case inactiveMarkers s of
         None \<Rightarrow> activeMarker s = None \<and> lines s = [] \<and> lineLayers s = []
       | Some inactive \<Rightarrow>
           (case activeMarker s of
              None \<Rightarrow> False
            | Some active \<Rightarrow> partitioned (storyData s) inactive active) \<and>
           lines s = expectedLines (storyData s) \<and>
           map fst (lineLayers s) = map lineId (lines s)))"

definition invariant :: "storymap \<Rightarrow> bool" where
  "invariant s =
     (inRange s \<and> markersOk s \<and> linesOk s \<and> (inactiveMarkers s \<noteq> None \<longrightarrow> buttonsOk s))"

text \<open>The entries that the loop of \<open>createAllLines\<close> adds from index \<open>i\<close> on.\<close>

definition linesFrom :: "nat \<Rightarrow> slide list \<Rightarrow> lineEntry list" where
  "linesFrom i sl =
     map (\<lambda>k. \<lparr>lineId = int (i + k), targetSlideIndex = int (i + k) + 1\<rparr>)
         (filter (\<lambda>k. wantsLine (sl ! k) (sl ! Suc k)) [0..<length sl - 1])"

text \<open>The loop of \<open>updateLineColors\<close> sets each layer to the colour of the last line with its id.\<close>

definition recolour :: "int \<Rightarrow> lineEntry list \<Rightarrow> int \<times> lineColor \<Rightarrow> int \<times> lineColor" where
  "recolour current es p =
     (case filter (\<lambda>e. lineId e = fst p) es of
        [] \<Rightarrow> p
      | e # rest \<Rightarrow> styled current (last (e # rest)))"

section \<open>A small story for concrete runs\<close>

text \<open>
  Three slides with valid locations, the first asking for a line to the second; a
  configuration with a data loader that delivers them; a page with all elements.
\<close>

definition demoLocation :: "rat \<Rightarrow> rat \<Rightarrow> bool \<Rightarrow> location option" where
  "demoLocation la lo l =
     Some \<lparr>lat = JNumber (Finite la), lon = JNumber (Finite lo), zoom = JUndefined, line = JBool l\<rparr>"

definition demoSlides :: "slide list" where
  "demoSlides =
     [\<lparr>headline = ''London'', location = demoLocation 51 0 True\<rparr>,
      \<lparr>headline = ''Paris'', location = demoLocation 48 2 False\<rparr>,
      \<lparr>headline = ''Rome'', location = demoLocation 41 12 False\<rparr>]"

definition demoConfig :: config where
  "demoConfig =
     \<lparr>dataLoader = Some (Inr (SlideArray demoSlides)), jsonUrl = None, mapInitializer = True,
      mapProvider = False, featureAnimations = True, featureKeyboardNavigation = True\<rparr>"

definition demoPage :: page where
  "demoPage =
     \<lparr>pageContentWrapper = True, pagePrevBtn = Some False, pageNextBtn = Some False,
      pageRestartBtn = Some False\<rparr>"

definition demoStory :: storymap where
  "demoStory =
     \<lparr>animations = True, keyboardNavigation = True, storyData = demoSlides,
      currentSlideIndex = 0, isAnimating = False, lines = [], inactiveMarkers = None,
      activeMarker = None, lineLayers = [], camera = None, contentWrapper = True,
      displayed = None, timers = [], prevBtn = Some False, nextBtn = Some False,
      restartBtn = Some False\<rparr>"

text \<open>The demo story once the map has loaded.\<close>

definition demoLoaded :: storymap where
  "demoLoaded = (case run [MapLoad] demoStory of Inl e \<Rightarrow> demoStory | Inr s \<Rightarrow> s)"

text \<open>The demo story while the animation of a step to the second slide is in flight.\<close>

definition demoAnimating :: storymap where
  "demoAnimating = (case run [MapLoad, ClickNext] demoStory of Inl e \<Rightarrow> demoStory | Inr s \<Rightarrow> s)"




section \<open>Requests without direction, and the buttons before the first slide update\<close>

text \<open>
  The slide that a request without direction asks for: \<open>goToSlide\<close>, the restart button,
  a click on a marker.
\<close>

fun jumpTarget :: "event \<Rightarrow> int option" where
  "jumpTarget (GoToSlide i) = Some i"
| "jumpTarget ClickRestart = Some 0"
| "jumpTarget (MarkerClick (f # fs)) = Some (slideIndex f)"
| "jumpTarget ev = None"

text \<open>
  An instance on which no slide update has run yet: it is at slide 0, the marker sources
  do not exist, and the buttons are as the page declared them.
\<close>

definition buttonsAsDeclared :: "page \<Rightarrow> storymap \<Rightarrow> bool" where
  "buttonsAsDeclared pg s =
     (currentSlideIndex s = 0 \<and> inactiveMarkers s = None \<and> prevBtn s = pagePrevBtn pg \<and>
      nextBtn s = pageNextBtn pg \<and> restartBtn s = pageRestartBtn pg)"

text \<open>Two states with the same slide, story, marker source and button flags.\<close>

definition sameControls :: "storymap \<Rightarrow> storymap \<Rightarrow> bool" where
  "sameControls s s' =
     (currentSlideIndex s' = currentSlideIndex s \<and> storyData s' = storyData s \<and>
      inactiveMarkers s' = inactiveMarkers s \<and> prevBtn s' = prevBtn s \<and>
      nextBtn s' = nextBtn s \<and> restartBtn s' = restartBtn s)"

section \<open>Auxiliary facts\<close>

lemma findIndex_None: "findIndex P xs = None \<longleftrightarrow> (\<forall>x\<in>set xs. \<not> P x)"
  by (induction xs) (auto split: option.splits)

lemma findIndex_Some:
  "findIndex P xs = Some k \<Longrightarrow> k < length xs \<and> P (xs ! k) \<and> (\<forall>j<k. \<not> P (xs ! j))"
proof (induction xs arbitrary: k)
  case Nil
  then show ?case by simp
next
  case (Cons x xs)
  show ?case
  proof (cases "P x")
    case True
    with Cons.prems show ?thesis by simp
  next
    case False
    with Cons.prems obtain k' where k': "findIndex P xs = Some k'" "k = Suc k'"
      by (auto split: option.splits)
    from Cons.IH[OF k'(1)] False k'(2) show ?thesis
      by (auto simp: nth_Cons split: nat.splits)
  qed
qed

lemma remove_nth_set:
  assumes "distinct (map g xs)" "k < length xs"
  shows "set (map g (take k xs @ drop (Suc k) xs)) = set (map g xs) - {g (xs ! k)}"
proof -
  have xs: "xs = take k xs @ (xs ! k) # drop (Suc k) xs"
    using assms(2) by (simp add: id_take_nth_drop)
  have "distinct (map g (take k xs @ (xs ! k) # drop (Suc k) xs))"
    using assms(1) xs by simp
  then have d: "g (xs ! k) \<notin> set (map g (take k xs))" "g (xs ! k) \<notin> set (map g (drop (Suc k) xs))"
    by auto
  have "set (map g xs) = set (map g (take k xs)) \<union> {g (xs ! k)} \<union> set (map g (drop (Suc k) xs))"
    by (subst xs) auto
  with d show ?thesis by auto
qed

lemma remove_nth_distinct:
  assumes "distinct (map g xs)"
  shows "distinct (map g (take k xs @ drop (Suc k) xs))"
proof (cases "k < length xs")
  case True
  then have xs: "xs = take k xs @ (xs ! k) # drop (Suc k) xs"
    by (simp add: id_take_nth_drop)
  have "distinct (map g (take k xs @ (xs ! k) # drop (Suc k) xs))"
    using assms xs by simp
  then show ?thesis by auto
next
  case False
  then show ?thesis using assms by simp
qed

section \<open>Location validity\<close>

text \<open>
  C5 (as amended). \<open>isValidLocation\<close> holds exactly when the location is present and
  \<open>parseFloat\<close> of its \<open>lat\<close> and of its \<open>lon\<close> is not NaN; the test is \<open>isNaN\<close>, so a
  coordinate that parses to an infinity is accepted.
\<close>

theorem isValidLocation_iff_not_NaN:
  "isValidLocation loc \<longleftrightarrow>
     (\<exists>l. loc = Some l \<and> parseFloat (lat l) \<noteq> NaN \<and> parseFloat (lon l) \<noteq> NaN)"
  by (cases loc) (auto simp: isValidLocation_def isNaN_def)

theorem isValidLocation_iff_not_NaN_witness:
  "isValidLocation (Some \<lparr>lat = JNumber (Finite 51), lon = JNumber PosInfinity,
                           zoom = JUndefined, line = JUndefined\<rparr>)"
  using isValidLocation_iff_not_NaN
          [of "Some \<lparr>lat = JNumber (Finite 51), lon = JNumber PosInfinity,
                     zoom = JUndefined, line = JUndefined\<rparr>"]
  by simp

text \<open>
  C5 as stated fails: the latitude \<^verbatim>\<open>"Infinity"\<close> parses to an infinite number, and the
  location is accepted.
\<close>

theorem isValidLocation_accepts_Infinity:
  "isValidLocation (Some \<lparr>lat = JString ''Infinity'', lon = JString ''0'',
                           zoom = JUndefined, line = JUndefined\<rparr>) \<and>
   \<not> isFiniteNum (parseFloat (JString ''Infinity''))"
  by code_simp

subsection \<open>Moving a marker between the two sources\<close>

lemma moveMarkerToInactive_eq:
  assumes "activeMarker s = Some (f # fs)" "inactiveMarkers s = Some ina"
  shows "moveMarkerToInactive i s =
         s\<lparr>inactiveMarkers := Some (ina @ [f\<lparr>isActive := False\<rparr>]), activeMarker := Some []\<rparr>"
  using assms by (simp add: moveMarkerToInactive_def)

lemma moveMarkerToActive_eq:
  assumes "inactiveMarkers s = Some ina" "activeMarker s = Some act"
    and "findIndex (\<lambda>f. slideIndex f = i) ina = Some k"
  shows "moveMarkerToActive i s =
         s\<lparr>inactiveMarkers := Some (take k ina @ drop (Suc k) ina),
           activeMarker := Some [(ina ! k)\<lparr>isActive := True\<rparr>]\<rparr>"
  using assms by (simp add: moveMarkerToActive_def)

lemma moveMarkerToActive_no_source:
  "inactiveMarkers s = None \<Longrightarrow> moveMarkerToActive i s = s"
  by (simp add: moveMarkerToActive_def)

lemma partitioned_deactivate:
  assumes "partitioned sd ina [f]"
  shows "partitioned sd (ina @ [f\<lparr>isActive := False\<rparr>]) []"
  using assms by (simp add: partitioned_def)

lemma partitioned_activate:
  assumes p: "partitioned sd ina []"
    and k: "findIndex (\<lambda>f. slideIndex f = i) ina = Some k"
  shows "partitioned sd (take k ina @ drop (Suc k) ina) [(ina ! k)\<lparr>isActive := True\<rparr>]"
    and "slideIndex (ina ! k) = i"
proof -
  define rest where "rest = take k ina @ drop (Suc k) ina"
  from findIndex_Some[OF k] have kl: "k < length ina" and ki: "slideIndex (ina ! k) = i"
    by auto
  from p have d: "distinct (map slideIndex ina)" and v: "set (map slideIndex ina) = {j. validIndex sd j}"
    by (auto simp: partitioned_def)
  have r: "set (map slideIndex rest) = set (map slideIndex ina) - {i}"
    unfolding rest_def using remove_nth_set[OF d kl] ki by simp
  have dr: "distinct (map slideIndex rest)"
    unfolding rest_def by (rule remove_nth_distinct[OF d])
  have mem: "i \<in> set (map slideIndex ina)"
    using kl ki by (metis length_map nth_map nth_mem)
  show "slideIndex (ina ! k) = i" by (rule ki)
  have "distinct (map slideIndex (rest @ [(ina ! k)\<lparr>isActive := True\<rparr>]))"
    using dr r ki by simp
  moreover have "set (map slideIndex (rest @ [(ina ! k)\<lparr>isActive := True\<rparr>])) = {j. validIndex sd j}"
    using r mem v ki by auto
  ultimately show "partitioned sd (take k ina @ drop (Suc k) ina) [(ina ! k)\<lparr>isActive := True\<rparr>]"
    unfolding partitioned_def rest_def by simp
qed

lemma partitioned_finds_valid:
  assumes "partitioned sd ina []" "validIndex sd i"
  shows "\<exists>k. findIndex (\<lambda>f. slideIndex f = i) ina = Some k"
proof (cases "findIndex (\<lambda>f. slideIndex f = i) ina")
  case None
  then have "i \<notin> set (map slideIndex ina)" by (auto simp: findIndex_None)
  with assms show ?thesis by (auto simp: partitioned_def)
next
  case (Some k)
  then show ?thesis by blast
qed

lemma partitioned_active_valid:
  assumes "partitioned sd ina (f # fs)"
  shows "validIndex sd (slideIndex f)" and "fs = []"
proof -
  from assms have "slideIndex f \<in> {j. validIndex sd j}"
    unfolding partitioned_def by (metis in_set_conv_decomp list.set_intros(1) list.simps(9) map_append set_append UnI2)
  then show "validIndex sd (slideIndex f)" by simp
  from assms show "fs = []" by (simp add: partitioned_def)
qed

text \<open>
  What \<open>updateMarkerColors\<close> does to a partition: it rewrites the two marker sources only,
  keeps the partition, and leaves the current slide's marker as the only active one.
\<close>

lemma updateMarkerColors_partitioned:
  assumes ina: "inactiveMarkers s = Some ina" and act: "activeMarker s = Some act"
    and p: "partitioned (storyData s) ina act" and r: "inRange s"
  shows "\<exists>ina' act'.
           updateMarkerColors s = Inr (s\<lparr>inactiveMarkers := Some ina', activeMarker := Some act'\<rparr>) \<and>
           partitioned (storyData s) ina' act' \<and>
           map slideIndex act' =
             (if validIndex (storyData s) (currentSlideIndex s) then [currentSlideIndex s] else [])"
proof -
  let ?c = "currentSlideIndex s"
  let ?sd = "storyData s"
  from r obtain sl where sl: "slideAt ?sd ?c = Some sl"
    by (auto simp: inRange_def slideAt_def)
  have valid: "validIndex ?sd ?c = isValidLocation (location sl)"
    using sl by (simp add: validIndex_def)
  \<comment> \<open>the state after the first branch: nothing active, or the current marker active\<close>
  have step2: "\<exists>ina' act'.
      (case slideAt (storyData t) (currentSlideIndex t) of
         None \<Rightarrow> Inl TypeError
       | Some sl \<Rightarrow> if isValidLocation (location sl)
                    then Inr (moveMarkerToActive (currentSlideIndex t) t) else Inr t)
        = Inr (s\<lparr>inactiveMarkers := Some ina', activeMarker := Some act'\<rparr>) \<and>
      partitioned ?sd ina' act' \<and>
      map slideIndex act' = (if validIndex ?sd ?c then [?c] else [])"
    if t: "t = s\<lparr>inactiveMarkers := Some inb, activeMarker := Some []\<rparr>"
      and pb: "partitioned ?sd inb []" for t inb
  proof (cases "validIndex ?sd ?c")
    case True
    from partitioned_finds_valid[OF pb True] obtain k
      where k: "findIndex (\<lambda>f. slideIndex f = ?c) inb = Some k" by blast
    have "moveMarkerToActive ?c t =
            t\<lparr>inactiveMarkers := Some (take k inb @ drop (Suc k) inb),
              activeMarker := Some [(inb ! k)\<lparr>isActive := True\<rparr>]\<rparr>"
      by (rule moveMarkerToActive_eq[where act = "[]"]) (simp_all add: t k)
    with True valid sl t partitioned_activate[OF pb k] show ?thesis
      by (intro exI[of _ "take k inb @ drop (Suc k) inb"]
                exI[of _ "[(inb ! k)\<lparr>isActive := True\<rparr>]"]) simp
  next
    case False
    with valid sl t pb show ?thesis
      by (intro exI[of _ inb] exI[of _ "[]"]) simp
  qed
  show ?thesis
  proof (cases act)
    case Nil
    have s: "s = s\<lparr>inactiveMarkers := Some ina, activeMarker := Some []\<rparr>"
      using ina act Nil by simp
    have "updateMarkerColors s =
          (case slideAt ?sd ?c of None \<Rightarrow> Inl TypeError
           | Some sl \<Rightarrow> if isValidLocation (location sl) then Inr (moveMarkerToActive ?c s) else Inr s)"
      using act Nil by (simp add: updateMarkerColors_def getPreviouslyActiveMarkerIndex_def)
    with step2[OF s] p Nil show ?thesis by simp
  next
    case (Cons f fs)
    from partitioned_active_valid[OF p[unfolded Cons]] have fv: "validIndex ?sd (slideIndex f)"
      and fs: "fs = []" by auto
    show ?thesis
    proof (cases "slideIndex f = ?c")
      case True
      have "updateMarkerColors s = Inr s"
        using act Cons True by (simp add: updateMarkerColors_def getPreviouslyActiveMarkerIndex_def)
      moreover have "s = s\<lparr>inactiveMarkers := Some ina, activeMarker := Some act\<rparr>"
        using ina act by simp
      ultimately have "updateMarkerColors s = Inr (s\<lparr>inactiveMarkers := Some ina, activeMarker := Some act\<rparr>)"
        by simp
      moreover have "map slideIndex act = (if validIndex ?sd ?c then [?c] else [])"
        using Cons fs fv True by simp
      ultimately show ?thesis using p by blast
    next
      case False
      define t where "t = moveMarkerToInactive (slideIndex f) s"
      have t: "t = s\<lparr>inactiveMarkers := Some (ina @ [f\<lparr>isActive := False\<rparr>]), activeMarker := Some []\<rparr>"
        unfolding t_def using moveMarkerToInactive_eq[of s f fs ina] act Cons ina by simp
      have pb: "partitioned ?sd (ina @ [f\<lparr>isActive := False\<rparr>]) []"
        using partitioned_deactivate p Cons fs by simp
      have "updateMarkerColors s =
            (case slideAt (storyData t) (currentSlideIndex t) of
               None \<Rightarrow> Inl TypeError
             | Some sl \<Rightarrow> if isValidLocation (location sl)
                          then Inr (moveMarkerToActive (currentSlideIndex t) t) else Inr t)"
        using act Cons False
        by (cases "isValidLocation (location sl)")
           (simp_all add: updateMarkerColors_def getPreviouslyActiveMarkerIndex_def Let_def
              t_def[symmetric] t sl)
      with step2[OF t pb] show ?thesis by simp
    qed
  qed
qed

lemma updateMarkerColors_no_sources:
  assumes "inactiveMarkers s = None" "activeMarker s = None" "inRange s"
  shows "updateMarkerColors s = Inr s"
  using assms
  by (auto simp: updateMarkerColors_def getPreviouslyActiveMarkerIndex_def inRange_def
      slideAt_def moveMarkerToActive_no_source)

lemma partitioned_inactive_set:
  assumes "partitioned sd ina act"
  shows "set (map slideIndex ina) = {j. validIndex sd j} - set (map slideIndex act)"
  using assms unfolding partitioned_def by auto

lemma validIndex_inRange:
  "validIndex (storyData s) i \<Longrightarrow> inRange (s\<lparr>currentSlideIndex := i\<rparr>)"
  by (auto simp: validIndex_def inRange_def slideAt_def split: if_splits)

section \<open>The marker layers\<close>

text \<open>
  C6 (as amended). \<open>moveMarkerToInactive\<close> does not look at its index: it is a no-op
  exactly when the active source holds no feature, and otherwise it appends the active
  feature to the inactive source and empties the active one, whatever the index is.
\<close>

theorem moveMarkerToInactive_ignores_index:
  "moveMarkerToInactive idx s = moveMarkerToInactive idx' s \<and>
   (moveMarkerToInactive idx s = s \<longleftrightarrow> activeMarker s = None \<or> activeMarker s = Some []) \<and>
   (inactiveMarkers s = Some ina \<longrightarrow> activeMarker s = Some (f # fs) \<longrightarrow>
      inactiveMarkers (moveMarkerToInactive idx s) = Some (ina @ [f\<lparr>isActive := False\<rparr>]) \<and>
      activeMarker (moveMarkerToInactive idx s) = Some [])"
proof (intro conjI impI)
  show "moveMarkerToInactive idx s = moveMarkerToInactive idx' s"
    by (simp add: moveMarkerToInactive_def)
next
  show "moveMarkerToInactive idx s = s \<longleftrightarrow> activeMarker s = None \<or> activeMarker s = Some []"
  proof (cases "activeMarker s")
    case None
    then show ?thesis by (simp add: moveMarkerToInactive_def)
  next
    case (Some act)
    show ?thesis
    proof (cases act)
      case Nil
      with Some show ?thesis by (simp add: moveMarkerToInactive_def)
    next
      case (Cons g gs)
      have "activeMarker (moveMarkerToInactive idx s) = Some []"
        using Some Cons by (simp add: moveMarkerToInactive_def Let_def split: option.splits)
      then have "moveMarkerToInactive idx s \<noteq> s"
        using Some Cons by auto
      with Some Cons show ?thesis by simp
    qed
  qed
next
  assume "inactiveMarkers s = Some ina" "activeMarker s = Some (f # fs)"
  then show "inactiveMarkers (moveMarkerToInactive idx s) = Some (ina @ [f\<lparr>isActive := False\<rparr>])"
    and "activeMarker (moveMarkerToInactive idx s) = Some []"
    by (simp_all add: moveMarkerToInactive_def)
qed

theorem moveMarkerToInactive_ignores_index_witness:
  "moveMarkerToInactive 2 demoLoaded = moveMarkerToInactive 0 demoLoaded \<and>
   moveMarkerToInactive 2 demoLoaded \<noteq> demoLoaded \<and>
   inactiveMarkers (moveMarkerToInactive 2 demoLoaded) =
     Some [\<lparr>slideIndex = 1, isActive = False, isClickable = True, coordinates = (Finite 2, Finite 48)\<rparr>,
           \<lparr>slideIndex = 2, isActive = False, isClickable = True, coordinates = (Finite 12, Finite 41)\<rparr>,
           \<lparr>slideIndex = 0, isActive = False, isClickable = True, coordinates = (Finite 0, Finite 51)\<rparr>] \<and>
   activeMarker (moveMarkerToInactive 2 demoLoaded) = Some []"
proof -
  have a: "activeMarker demoLoaded =
             Some [\<lparr>slideIndex = 0, isActive = True, isClickable = True, coordinates = (Finite 0, Finite 51)\<rparr>]"
    by code_simp
  have i: "inactiveMarkers demoLoaded =
             Some [\<lparr>slideIndex = 1, isActive = False, isClickable = True, coordinates = (Finite 2, Finite 48)\<rparr>,
                   \<lparr>slideIndex = 2, isActive = False, isClickable = True, coordinates = (Finite 12, Finite 41)\<rparr>]"
    by code_simp
  note t = moveMarkerToInactive_ignores_index
            [of 2 demoLoaded 0
                "[\<lparr>slideIndex = 1, isActive = False, isClickable = True, coordinates = (Finite 2, Finite 48)\<rparr>,
                  \<lparr>slideIndex = 2, isActive = False, isClickable = True, coordinates = (Finite 12, Finite 41)\<rparr>]"
                "\<lparr>slideIndex = 0, isActive = True, isClickable = True, coordinates = (Finite 0, Finite 51)\<rparr>"
                "[]"]
  have c1: "moveMarkerToInactive 2 demoLoaded = moveMarkerToInactive 0 demoLoaded"
    using t by (rule conjunct1)
  have c2: "moveMarkerToInactive 2 demoLoaded \<noteq> demoLoaded"
    using t[THEN conjunct2, THEN conjunct1] a by simp
  have c3: "inactiveMarkers (moveMarkerToInactive 2 demoLoaded) =
     Some [\<lparr>slideIndex = 1, isActive = False, isClickable = True, coordinates = (Finite 2, Finite 48)\<rparr>,
           \<lparr>slideIndex = 2, isActive = False, isClickable = True, coordinates = (Finite 12, Finite 41)\<rparr>,
           \<lparr>slideIndex = 0, isActive = False, isClickable = True, coordinates = (Finite 0, Finite 51)\<rparr>] \<and>
   activeMarker (moveMarkerToInactive 2 demoLoaded) = Some []"
    using t[THEN conjunct2, THEN conjunct2, rule_format, OF i a] by simp
  from c1 c2 c3 show ?thesis by (intro conjI) (rule c1, rule c2, rule c3[THEN conjunct1], rule c3[THEN conjunct2])
qed

text \<open>
  C6 as stated fails: with the marker of slide 0 active, \<open>moveMarkerToInactive 2\<close> moves
  that marker although 2 is not the active member.
\<close>

theorem moveMarkerToInactive_other_index_moves:
  "getPreviouslyActiveMarkerIndex demoLoaded = Some 0 \<and>
   activeMarker (moveMarkerToInactive 2 demoLoaded) = Some [] \<and>
   map_option (map slideIndex) (inactiveMarkers demoLoaded) = Some [1, 2] \<and>
   map_option (map slideIndex) (inactiveMarkers (moveMarkerToInactive 2 demoLoaded)) = Some [1, 2, 0]"
  by code_simp

text \<open>
  C9. Let the marker sources be a partition of the valid slides with \<open>a\<close> the active member
  and \<open>b\<close> an inactive one (both are then slides with valid locations). The transition to
  \<open>b\<close> followed by the transition back to \<open>a\<close>, each being \<open>updateMarkerColors\<close> at the
  new current index, succeeds and ends with \<open>a\<close> as the active set and the inactive set
  it started from.
\<close>

theorem transition_round_trip:
  assumes ina: "inactiveMarkers s = Some ina" and act: "activeMarker s = Some [fa]"
    and a: "slideIndex fa = a" and b: "b \<in> set (map slideIndex ina)"
    and p: "partitioned (storyData s) ina [fa]"
  shows "\<exists>s1 s2 ina2 act2.
           updateMarkerColors (s\<lparr>currentSlideIndex := b\<rparr>) = Inr s1 \<and>
           updateMarkerColors (s1\<lparr>currentSlideIndex := a\<rparr>) = Inr s2 \<and>
           inactiveMarkers s2 = Some ina2 \<and> activeMarker s2 = Some act2 \<and>
           set (map slideIndex act2) = {a} \<and>
           set (map slideIndex ina2) = set (map slideIndex ina)"
proof -
  let ?sd = "storyData s"
  have va: "validIndex ?sd a"
    using partitioned_active_valid(1)[OF p] a by simp
  have vb: "validIndex ?sd b"
    using partitioned_inactive_set[OF p] b by auto
  let ?sb = "s\<lparr>currentSlideIndex := b\<rparr>"
  from updateMarkerColors_partitioned[of ?sb ina "[fa]"] ina act p validIndex_inRange[OF vb] vb
  obtain ina1 act1 where
    s1: "updateMarkerColors ?sb = Inr (?sb\<lparr>inactiveMarkers := Some ina1, activeMarker := Some act1\<rparr>)"
    and p1: "partitioned ?sd ina1 act1"
    by auto
  let ?s1 = "?sb\<lparr>inactiveMarkers := Some ina1, activeMarker := Some act1\<rparr>"
  let ?sa = "?s1\<lparr>currentSlideIndex := a\<rparr>"
  have ra: "inRange ?sa"
    using validIndex_inRange[OF va] by (simp add: inRange_def)
  from updateMarkerColors_partitioned[of ?sa ina1 act1] p1 ra va
  obtain ina2 act2 where
    s2: "updateMarkerColors ?sa = Inr (?sa\<lparr>inactiveMarkers := Some ina2, activeMarker := Some act2\<rparr>)"
    and p2: "partitioned ?sd ina2 act2" and a2: "map slideIndex act2 = [a]"
    by auto
  have "set (map slideIndex ina2) = {j. validIndex ?sd j} - {a}"
    using partitioned_inactive_set[OF p2] a2 by simp
  also have "\<dots> = set (map slideIndex ina)"
    using partitioned_inactive_set[OF p] a by simp
  finally have e: "set (map slideIndex ina2) = set (map slideIndex ina)" .
  show ?thesis
    apply (rule exI[of _ ?s1])
    apply (rule exI[of _ "?sa\<lparr>inactiveMarkers := Some ina2, activeMarker := Some act2\<rparr>"])
    apply (rule exI[of _ ina2])
    apply (rule exI[of _ act2])
    using s1 s2 e a2 by simp
qed


lemma validIndex_demoSlides: "validIndex demoSlides j \<longleftrightarrow> j \<in> {0, 1, 2}"
proof -
  have "validIndex demoSlides 0" "validIndex demoSlides 1" "validIndex demoSlides 2"
    by (simp_all add: validIndex_def slideAt_def demoSlides_def demoLocation_def
        isValidLocation_def isNaN_def)
  moreover have "\<not> validIndex demoSlides j" if "j < 0 \<or> 3 \<le> j"
    using that by (auto simp: validIndex_def slideAt_def demoSlides_def)
  moreover have "j < 0 \<or> 3 \<le> j \<or> j = 0 \<or> j = 1 \<or> j = 2" by arith
  ultimately show ?thesis by auto
qed

theorem transition_round_trip_witness:
  "\<exists>s1 s2 ina2 act2.
      updateMarkerColors (demoLoaded\<lparr>currentSlideIndex := 2\<rparr>) = Inr s1 \<and>
      updateMarkerColors (s1\<lparr>currentSlideIndex := 0\<rparr>) = Inr s2 \<and>
      inactiveMarkers s2 = Some ina2 \<and> activeMarker s2 = Some act2 \<and>
      set (map slideIndex act2) = {0} \<and> set (map slideIndex ina2) = {1, 2}"
proof -
  let ?f0 = "\<lparr>slideIndex = 0, isActive = True, isClickable = True, coordinates = (Finite 0, Finite 51)\<rparr>"
  let ?ina = "[\<lparr>slideIndex = 1, isActive = False, isClickable = True, coordinates = (Finite 2, Finite 48)\<rparr>,
               \<lparr>slideIndex = 2, isActive = False, isClickable = True, coordinates = (Finite 12, Finite 41)\<rparr>]"
  have a: "activeMarker demoLoaded = Some [?f0]"
    by code_simp
  have i: "inactiveMarkers demoLoaded = Some ?ina"
    by code_simp
  have sd: "storyData demoLoaded = demoSlides"
    by code_simp
  have p: "partitioned (storyData demoLoaded) ?ina [?f0]"
    unfolding sd partitioned_def using validIndex_demoSlides by auto
  have b: "2 \<in> set (map slideIndex ?ina)" by simp
  have z: "slideIndex ?f0 = 0" by simp
  from transition_round_trip[OF i a z b p] show ?thesis by simp
qed

section \<open>Language switch\<close>

text \<open>
  C3 (as amended). The provider's \<open>switchLanguageWithPosition\<close> keeps the slide index and
  only clamps it into the new sequence: the result is \<open>clamp(i, 0, L' - 1)\<close>, or 0 when
  \<open>maintainSlidePosition\<close> is off. At index 4, a switch to 5 slides yields 4. The ratio
  \<open>min(floor((i / L) * L'), L' - 1)\<close> is what \<open>switchLanguage\<close> of the multilingual example
  computes, in double arithmetic; at index 4 of 10 slides and 5 new slides it yields 2.
\<close>

theorem switchLanguageWithPosition_clamps_index:
  "switchLanguageWithPosition (Some slides) i True =
     Some (slides, max 0 (min i (int (length slides) - 1))) \<and>
   switchLanguageWithPosition (Some slides) i False = Some (slides, 0) \<and>
   switchLanguageWithPosition (Some (replicate 5 sl)) 4 True = Some (replicate 5 sl, 4) \<and>
   newSlideIndex 4 10 5 = Finite 2"
proof (intro conjI)
  show "switchLanguageWithPosition (Some slides) i True =
     Some (slides, max 0 (min i (int (length slides) - 1)))"
    by (simp add: switchLanguageWithPosition_def Let_def max_def min_def)
  show "switchLanguageWithPosition (Some slides) i False = Some (slides, 0)"
    by (simp add: switchLanguageWithPosition_def)
  show "switchLanguageWithPosition (Some (replicate 5 sl)) 4 True = Some (replicate 5 sl, 4)"
    by (simp add: switchLanguageWithPosition_def)
  show "newSlideIndex 4 10 5 = Finite 2"
    by code_simp
qed

text \<open>
  C3 as stated fails on the provider: at index 4, a switch to a language of 5 slides does
  not yield \<open>floor((4 / 10) * 5) = 2\<close>.
\<close>

theorem switchLanguageWithPosition_not_ratio:
  "map_option snd (switchLanguageWithPosition (Some (replicate 5 \<lparr>headline = [], location = None\<rparr>)) 4 True)
     \<noteq> Some (max 0 (min \<lfloor>(4 / 10 :: rat) * 5\<rfloor> (5 - 1)))"
  by (simp add: switchLanguageWithPosition_def)

text \<open>
  In double arithmetic the product \<open>(i / L) * L'\<close> can fall just below the exact value:
  from index 1 of 49 slides to 49 slides the example's formula gives 0.
\<close>

lemma newSlideIndex_rounding: "newSlideIndex 1 49 49 = Finite 0"
  by code_simp

section \<open>Initialisation failures\<close>




section \<open>The busy guard\<close>

text \<open>
  C2. While \<open>isAnimating\<close> is set, every navigation request (previous, next, restart,
  \<open>navigateToSlide\<close>/\<open>goToSlide\<close>, a marker click, an arrow key, a button) returns without an
  error and leaves the whole state as it was; nothing is stored for later.
\<close>

theorem busy_requests_dropped:
  assumes "isAnimating s"
  shows "navigatePrevious s = Inr s \<and> navigateNext s = Inr s \<and> restart s = Inr s \<and>
         navigateToSlide i s = Inr s \<and> onMarkerClick fs s = Inr s \<and> onKeyDown k s = Inr s \<and>
         (ev \<noteq> TimerFires \<longrightarrow> ev \<noteq> MapLoad \<longrightarrow> handle ev s = Inr s)"
proof -
  have n: "navigatePrevious s = Inr s" "navigateNext s = Inr s" "restart s = Inr s"
    "\<And>j. navigateToSlide j s = Inr s"
    using assms by (simp_all add: navigatePrevious_def navigateNext_def restart_def navigateToSlide_def)
  have m: "\<And>gs. onMarkerClick gs s = Inr s"
    using assms by (simp add: onMarkerClick_def split: list.splits)
  have k: "\<And>k. onKeyDown k s = Inr s"
    using n by (simp add: onKeyDown_def split: key.splits)
  have "handle ev s = Inr s" if "ev \<noteq> TimerFires" "ev \<noteq> MapLoad"
    using that n m k by (cases ev) simp_all
  with n m k show ?thesis by simp
qed

theorem busy_requests_dropped_witness:
  "isAnimating demoAnimating \<and>
   navigatePrevious demoAnimating = Inr demoAnimating \<and>
   navigateNext demoAnimating = Inr demoAnimating \<and>
   restart demoAnimating = Inr demoAnimating \<and>
   navigateToSlide 2 demoAnimating = Inr demoAnimating \<and>
   onMarkerClick [\<lparr>slideIndex = 2, isActive = False, isClickable = True,
                    coordinates = (Finite 12, Finite 41)\<rparr>] demoAnimating = Inr demoAnimating \<and>
   onKeyDown ArrowLeft demoAnimating = Inr demoAnimating \<and>
   handle ClickPrev demoAnimating = Inr demoAnimating"
proof -
  have a: "isAnimating demoAnimating" by code_simp
  from busy_requests_dropped
         [OF a, of 2 "[\<lparr>slideIndex = 2, isActive = False, isClickable = True,
                          coordinates = (Finite 12, Finite 41)\<rparr>]" ArrowLeft ClickPrev] a
  show ?thesis by simp
qed

section \<open>Lines\<close>

lemma linesFrom_short [simp]: "linesFrom i [] = []" "linesFrom i [a] = []"
  by (simp_all add: linesFrom_def)

lemma linesFrom_Cons:
  "linesFrom i (a # b # rest) =
     (if wantsLine a b then [\<lparr>lineId = int i, targetSlideIndex = int i + 1\<rparr>] else []) @
     linesFrom (Suc i) (b # rest)"
proof -
  have u: "[0..<length (a # b # rest) - 1] = 0 # map Suc [0..<length (b # rest) - 1]"
    by (simp add: upt_conv_Cons map_Suc_upt del: upt_Suc)
  show ?thesis
    unfolding linesFrom_def u
    by (simp add: filter_map comp_def)
qed

lemma createLinesFrom_eq:
  "createLinesFrom i sl s =
     s\<lparr>lineLayers := lineLayers s @ map (\<lambda>e. (lineId e, LineColor)) (linesFrom i sl),
       lines := lines s @ linesFrom i sl\<rparr>"
proof (induction i sl s rule: createLinesFrom.induct)
  case (1 i currentSlide nextSlide rest s)
  then show ?case
    by (simp add: linesFrom_Cons createLineSegment_def)
next
  case (2 i currentSlide s)
  then show ?case by simp
next
  case (3 i s)
  then show ?case by simp
qed

lemma linesFrom_0: "linesFrom 0 sd = expectedLines sd"
  by (simp add: linesFrom_def expectedLines_def wantsLineAt_def[abs_def])

lemma createAllLines_eq:
  assumes "lines s = []" "lineLayers s = []"
  shows "createAllLines s =
           s\<lparr>lineLayers := map (\<lambda>e. (lineId e, LineColor)) (expectedLines (storyData s)),
             lines := expectedLines (storyData s)\<rparr>"
  using assms by (simp add: createAllLines_def createLinesFrom_eq linesFrom_0)

lemma expectedLines_ids:
  "map lineId (expectedLines sd) = map int (filter (wantsLineAt sd) [0..<length sd - 1])"
  by (simp add: expectedLines_def comp_def)

lemma expectedLines_distinct: "distinct (map lineId (expectedLines sd))"
  by (simp add: expectedLines_ids distinct_map inj_on_def)

lemma recolour_Nil [simp]: "recolour c [] p = p"
  by (simp add: recolour_def)

lemma recolour_snoc:
  "recolour c (es @ [e]) p = (if lineId e = fst p then styled c e else recolour c es p)"
  by (cases "filter (\<lambda>e. lineId e = fst p) es") (auto simp: recolour_def)

lemma fst_recolour [simp]: "fst (recolour c es p) = fst p"
proof (cases "filter (\<lambda>e. lineId e = fst p) es")
  case Nil
  then show ?thesis by (simp add: recolour_def)
next
  case (Cons e rest)
  have "last (e # rest) \<in> set (filter (\<lambda>e. lineId e = fst p) es)"
    unfolding Cons by (rule last_in_set) simp
  then have "lineId (last (e # rest)) = fst p" by simp
  with Cons show ?thesis by (simp add: recolour_def styled_def)
qed

lemma updateLineColors_fold:
  "foldl (\<lambda>layers e.
            if targetSlideIndex e = c
            then setPaintProperty (lineId e) LineColorActive layers
            else setPaintProperty (lineId e) LineColor layers) layers es
   = map (recolour c es) layers"
proof (induction es rule: rev_induct)
  case Nil
  then show ?case by (simp add: map_idI)
next
  case (snoc e es)
  show ?case
    by (auto simp: snoc setPaintProperty_def recolour_snoc styled_def split_beta prod_eq_iff)
qed

lemma filter_same_key:
  assumes "distinct (map g xs)" "e \<in> set xs"
  shows "filter (\<lambda>x. g x = g e) xs = [e]"
  using assms
proof (induction xs)
  case Nil
  then show ?case by simp
next
  case (Cons x xs)
  show ?case
  proof (cases "x = e")
    case True
    have "g y \<noteq> g e" if "y \<in> set xs" for y
      using Cons.prems(1) True that by (auto simp: image_iff)
    then have "filter (\<lambda>x. g x = g e) xs = []"
      by (simp add: filter_empty_conv)
    with True show ?thesis by simp
  next
    case False
    with Cons.prems have e: "e \<in> set xs" and "g x \<noteq> g e"
      by auto
    with Cons.IH Cons.prems(1) show ?thesis by simp
  qed
qed

lemma updateLineColors_eq:
  assumes l: "map fst (lineLayers s) = map lineId (lines s)"
    and d: "distinct (map lineId (lines s))"
  shows "updateLineColors s = s\<lparr>lineLayers := map (styled (currentSlideIndex s)) (lines s)\<rparr>"
proof -
  let ?c = "currentSlideIndex s"
  have one: "recolour ?c (lines s) p = styled ?c e"
    if e: "e \<in> set (lines s)" and p: "fst p = lineId e" for p e
  proof -
    have "filter (\<lambda>x. lineId x = lineId e) (lines s) = [e]"
      using d e by (rule filter_same_key)
    then show ?thesis by (simp add: recolour_def p)
  qed
  have "map (recolour ?c (lines s)) (lineLayers s) = map (styled ?c) (lines s)"
  proof (rule nth_equalityI)
    show "length (map (recolour ?c (lines s)) (lineLayers s)) = length (map (styled ?c) (lines s))"
      using l by (metis length_map)
  next
    fix k assume "k < length (map (recolour ?c (lines s)) (lineLayers s))"
    then have k: "k < length (lineLayers s)" by simp
    then have k': "k < length (lines s)" using l by (metis length_map)
    have "fst (lineLayers s ! k) = lineId (lines s ! k)"
      using l k k' by (metis nth_map)
    with one[of "lines s ! k" "lineLayers s ! k"] k k'
    show "map (recolour ?c (lines s)) (lineLayers s) ! k = map (styled ?c) (lines s) ! k"
      by simp
  qed
  then show ?thesis
    by (simp add: updateLineColors_def updateLineColors_fold)
qed

section \<open>Creating the markers\<close>

lemma zip_upt_nth: "zip [0..<length xs] xs = map (\<lambda>i. (i, xs ! i)) [0..<length xs]"
  by (rule nth_equalityI) simp_all

lemma inactiveMarkerFeature_None:
  "inactiveMarkerFeature (i, sl) = None \<longleftrightarrow> \<not> isValidLocation (location sl)"
  by (auto simp: inactiveMarkerFeature_def isValidLocation_def split: option.splits)

lemma inactiveMarkerFeature_index:
  "inactiveMarkerFeature (i, sl) = Some f \<Longrightarrow> slideIndex f = int i"
  by (auto simp: inactiveMarkerFeature_def split: option.splits if_splits)

lemma inactive_indices:
  "map slideIndex (List.map_filter inactiveMarkerFeature (zip [0..<length sd] sd)) =
   map int (filter (\<lambda>i. isValidLocation (location (sd ! i))) [0..<length sd])"
proof -
  have "map slideIndex (List.map_filter inactiveMarkerFeature (map (\<lambda>i. (i, sd ! i)) xs)) =
        map int (filter (\<lambda>i. isValidLocation (location (sd ! i))) xs)" for xs
  proof (induction xs)
    case Nil
    then show ?case by (simp add: List.map_filter_simps)
  next
    case (Cons i xs)
    show ?case
    proof (cases "inactiveMarkerFeature (i, sd ! i)")
      case None
      with Cons inactiveMarkerFeature_None[of i "sd ! i"] show ?thesis
        by (simp add: List.map_filter_simps)
    next
      case (Some f)
      with Cons inactiveMarkerFeature_None[of i "sd ! i"] inactiveMarkerFeature_index[OF Some]
      show ?thesis
        by (simp add: List.map_filter_simps)
    qed
  qed
  then show ?thesis by (simp add: zip_upt_nth)
qed

lemma valid_indices_set:
  "set (map int (filter (\<lambda>i. isValidLocation (location (sd ! i))) [0..<length sd])) =
   {j. validIndex sd j}"
proof (rule set_eqI)
  fix j
  show "j \<in> set (map int (filter (\<lambda>i. isValidLocation (location (sd ! i))) [0..<length sd]))
        \<longleftrightarrow> j \<in> {j. validIndex sd j}"
  proof
    assume "j \<in> set (map int (filter (\<lambda>i. isValidLocation (location (sd ! i))) [0..<length sd]))"
    then obtain i where "j = int i" "i < length sd" "isValidLocation (location (sd ! i))"
      by auto
    then show "j \<in> {j. validIndex sd j}"
      by (simp add: validIndex_def slideAt_def)
  next
    assume "j \<in> {j. validIndex sd j}"
    then have "0 \<le> j" "nat j < length sd" "isValidLocation (location (sd ! nat j))"
      by (auto simp: validIndex_def slideAt_def split: if_splits)
    then show "j \<in> set (map int (filter (\<lambda>i. isValidLocation (location (sd ! i))) [0..<length sd]))"
      by (auto simp: image_iff intro!: bexI[of _ "nat j"])
  qed
qed

lemma createInactiveMarkers_partitioned:
  "partitioned sd (List.map_filter inactiveMarkerFeature (zip [0..<length sd] sd)) []"
  unfolding partitioned_def
  by (simp add: inactive_indices valid_indices_set distinct_map inj_on_def del: set_map set_filter)

lemma createAllMarkers_partitioned:
  assumes r: "inRange s"
  shows "\<exists>ina act.
           createAllMarkers s = Inr (s\<lparr>inactiveMarkers := Some ina, activeMarker := Some act\<rparr>) \<and>
           partitioned (storyData s) ina act"
proof -
  let ?sd = "storyData s"
  let ?c = "currentSlideIndex s"
  let ?F = "List.map_filter inactiveMarkerFeature (zip [0..<length ?sd] ?sd)"
  let ?s1 = "s\<lparr>inactiveMarkers := Some ?F, activeMarker := Some []\<rparr>"
  have s1: "createActiveMarker (createInactiveMarkers s) = ?s1"
    by (simp add: createActiveMarker_def createInactiveMarkers_def)
  from r obtain sl where sl: "slideAt ?sd ?c = Some sl"
    by (auto simp: inRange_def slideAt_def)
  have pF: "partitioned ?sd ?F []" by (rule createInactiveMarkers_partitioned)
  show ?thesis
  proof (cases "isValidLocation (location sl)")
    case True
    then have "validIndex ?sd ?c" using sl by (simp add: validIndex_def)
    from partitioned_finds_valid[OF pF this] obtain k
      where k: "findIndex (\<lambda>f. slideIndex f = ?c) ?F = Some k" by blast
    have m: "moveMarkerToActive ?c ?s1 =
            ?s1\<lparr>inactiveMarkers := Some (take k ?F @ drop (Suc k) ?F),
                activeMarker := Some [(?F ! k)\<lparr>isActive := True\<rparr>]\<rparr>"
      by (rule moveMarkerToActive_eq[where act = "[]"]) (simp_all add: k)
    have "createAllMarkers s = Inr (moveMarkerToActive ?c ?s1)"
      using True sl by (simp add: createAllMarkers_def s1 Let_def)
    with m partitioned_activate(1)[OF pF k] show ?thesis
      by (intro exI[of _ "take k ?F @ drop (Suc k) ?F"]
                exI[of _ "[(?F ! k)\<lparr>isActive := True\<rparr>]"]) simp
  next
    case False
    then have "createAllMarkers s = Inr ?s1"
      using sl by (simp add: createAllMarkers_def s1 Let_def)
    with pF show ?thesis by blast
  qed
qed

section \<open>What a slide update leaves alone\<close>

lemma updateContent_fields [simp]:
  "storyData (updateContent sl dir s) = storyData s"
  "currentSlideIndex (updateContent sl dir s) = currentSlideIndex s"
  "lines (updateContent sl dir s) = lines s"
  "lineLayers (updateContent sl dir s) = lineLayers s"
  "inactiveMarkers (updateContent sl dir s) = inactiveMarkers s"
  "activeMarker (updateContent sl dir s) = activeMarker s"
  "animations (updateContent sl dir s) = animations s"
  "keyboardNavigation (updateContent sl dir s) = keyboardNavigation s"
  "contentWrapper (updateContent sl dir s) = contentWrapper s"
  "prevBtn (updateContent sl dir s) = prevBtn s"
  "nextBtn (updateContent sl dir s) = nextBtn s"
  "restartBtn (updateContent sl dir s) = restartBtn s"
  by (simp_all add: updateContent_def animateSlideTransition_def updateSlideContent_def)

lemma updateContent_isAnimating:
  "isAnimating (updateContent sl dir s) =
     (isAnimating s \<or> (contentWrapper s \<and> dir \<noteq> DirNone \<and> animations s))"
  by (auto simp: updateContent_def animateSlideTransition_def updateSlideContent_def)

lemma updateContent_timers:
  "timers (updateContent sl dir s) =
     (if contentWrapper s \<and> dir \<noteq> DirNone \<and> animations s \<and> \<not> isAnimating s
      then timers s @ [ExitTimer sl] else timers s)"
  by (auto simp: updateContent_def animateSlideTransition_def updateSlideContent_def)

lemma flyToSlide_fields [simp]:
  "storyData (flyToSlide i s) = storyData s"
  "currentSlideIndex (flyToSlide i s) = currentSlideIndex s"
  "lines (flyToSlide i s) = lines s"
  "lineLayers (flyToSlide i s) = lineLayers s"
  "inactiveMarkers (flyToSlide i s) = inactiveMarkers s"
  "activeMarker (flyToSlide i s) = activeMarker s"
  "animations (flyToSlide i s) = animations s"
  "keyboardNavigation (flyToSlide i s) = keyboardNavigation s"
  "contentWrapper (flyToSlide i s) = contentWrapper s"
  "prevBtn (flyToSlide i s) = prevBtn s"
  "nextBtn (flyToSlide i s) = nextBtn s"
  "restartBtn (flyToSlide i s) = restartBtn s"
  "isAnimating (flyToSlide i s) = isAnimating s"
  "timers (flyToSlide i s) = timers s"
  "displayed (flyToSlide i s) = displayed s"
  by (simp_all add: flyToSlide_def split: option.splits)

lemma updateButtonStates_fields [simp]:
  "storyData (updateButtonStates s) = storyData s"
  "currentSlideIndex (updateButtonStates s) = currentSlideIndex s"
  "lines (updateButtonStates s) = lines s"
  "lineLayers (updateButtonStates s) = lineLayers s"
  "inactiveMarkers (updateButtonStates s) = inactiveMarkers s"
  "activeMarker (updateButtonStates s) = activeMarker s"
  "animations (updateButtonStates s) = animations s"
  "keyboardNavigation (updateButtonStates s) = keyboardNavigation s"
  "contentWrapper (updateButtonStates s) = contentWrapper s"
  "isAnimating (updateButtonStates s) = isAnimating s"
  "timers (updateButtonStates s) = timers s"
  "displayed (updateButtonStates s) = displayed s"
  "camera (updateButtonStates s) = camera s"
  by (simp_all add: updateButtonStates_def Let_def)

lemma updateButtonStates_buttons:
  "prevBtn (updateButtonStates s) = map_option (\<lambda>old. \<not> currentSlideIndex s > 0) (prevBtn s)"
  "restartBtn (updateButtonStates s) = map_option (\<lambda>old. \<not> currentSlideIndex s > 0) (restartBtn s)"
  "nextBtn (updateButtonStates s) =
     map_option (\<lambda>old. \<not> currentSlideIndex s < int (length (storyData s)) - 1) (nextBtn s)"
  by (simp_all add: updateButtonStates_def Let_def)

lemma updateButtonStates_ok:
  "inRange s \<Longrightarrow> buttonsOk (updateButtonStates s)"
  by (cases "prevBtn s"; cases "restartBtn s"; cases "nextBtn s")
     (auto simp: buttonsOk_def updateButtonStates_buttons inRange_def)

lemma updateLineColors_fields [simp]:
  "storyData (updateLineColors s) = storyData s"
  "currentSlideIndex (updateLineColors s) = currentSlideIndex s"
  "lines (updateLineColors s) = lines s"
  "inactiveMarkers (updateLineColors s) = inactiveMarkers s"
  "activeMarker (updateLineColors s) = activeMarker s"
  "animations (updateLineColors s) = animations s"
  "keyboardNavigation (updateLineColors s) = keyboardNavigation s"
  "contentWrapper (updateLineColors s) = contentWrapper s"
  "prevBtn (updateLineColors s) = prevBtn s"
  "nextBtn (updateLineColors s) = nextBtn s"
  "restartBtn (updateLineColors s) = restartBtn s"
  "isAnimating (updateLineColors s) = isAnimating s"
  "timers (updateLineColors s) = timers s"
  "displayed (updateLineColors s) = displayed s"
  "camera (updateLineColors s) = camera s"
  by (simp_all add: updateLineColors_def)

lemma moveMarkerToInactive_fields [simp]:
  "storyData (moveMarkerToInactive i s) = storyData s"
  "currentSlideIndex (moveMarkerToInactive i s) = currentSlideIndex s"
  "lines (moveMarkerToInactive i s) = lines s"
  "lineLayers (moveMarkerToInactive i s) = lineLayers s"
  "animations (moveMarkerToInactive i s) = animations s"
  "keyboardNavigation (moveMarkerToInactive i s) = keyboardNavigation s"
  "contentWrapper (moveMarkerToInactive i s) = contentWrapper s"
  "prevBtn (moveMarkerToInactive i s) = prevBtn s"
  "nextBtn (moveMarkerToInactive i s) = nextBtn s"
  "restartBtn (moveMarkerToInactive i s) = restartBtn s"
  "isAnimating (moveMarkerToInactive i s) = isAnimating s"
  "timers (moveMarkerToInactive i s) = timers s"
  "displayed (moveMarkerToInactive i s) = displayed s"
  "camera (moveMarkerToInactive i s) = camera s"
  by (simp_all add: moveMarkerToInactive_def Let_def split: option.splits list.splits)

lemma moveMarkerToActive_fields [simp]:
  "storyData (moveMarkerToActive i s) = storyData s"
  "currentSlideIndex (moveMarkerToActive i s) = currentSlideIndex s"
  "lines (moveMarkerToActive i s) = lines s"
  "lineLayers (moveMarkerToActive i s) = lineLayers s"
  "animations (moveMarkerToActive i s) = animations s"
  "keyboardNavigation (moveMarkerToActive i s) = keyboardNavigation s"
  "contentWrapper (moveMarkerToActive i s) = contentWrapper s"
  "prevBtn (moveMarkerToActive i s) = prevBtn s"
  "nextBtn (moveMarkerToActive i s) = nextBtn s"
  "restartBtn (moveMarkerToActive i s) = restartBtn s"
  "isAnimating (moveMarkerToActive i s) = isAnimating s"
  "timers (moveMarkerToActive i s) = timers s"
  "displayed (moveMarkerToActive i s) = displayed s"
  "camera (moveMarkerToActive i s) = camera s"
  by (simp_all add: moveMarkerToActive_def Let_def split: option.splits list.splits)

text \<open>The fields that a slide update's marker step cannot change.\<close>

lemma updateMarkerColors_frame:
  assumes "slideAt (storyData s) (currentSlideIndex s) = Some sl"
  shows "\<exists>s'. updateMarkerColors s = Inr s' \<and> isAnimating s' = isAnimating s \<and>
           timers s' = timers s \<and> currentSlideIndex s' = currentSlideIndex s \<and>
           storyData s' = storyData s \<and> animations s' = animations s \<and>
           contentWrapper s' = contentWrapper s \<and> keyboardNavigation s' = keyboardNavigation s \<and>
           lines s' = lines s \<and> lineLayers s' = lineLayers s"
proof -
  define s1 where "s1 = (case getPreviouslyActiveMarkerIndex s of
                  None \<Rightarrow> s
                | Some p \<Rightarrow> if p \<noteq> currentSlideIndex s then moveMarkerToInactive p s else s)"
  have f: "isAnimating s1 = isAnimating s" "timers s1 = timers s"
    "currentSlideIndex s1 = currentSlideIndex s" "storyData s1 = storyData s"
    "animations s1 = animations s" "contentWrapper s1 = contentWrapper s"
    "keyboardNavigation s1 = keyboardNavigation s" "lines s1 = lines s" "lineLayers s1 = lineLayers s"
    by (simp_all add: s1_def split: option.splits)
  have u: "updateMarkerColors s =
        (if Some (currentSlideIndex s1) \<noteq> getPreviouslyActiveMarkerIndex s
         then (if isValidLocation (location sl)
               then Inr (moveMarkerToActive (currentSlideIndex s1) s1) else Inr s1)
         else Inr s1)"
    using assms by (simp add: updateMarkerColors_def Let_def s1_def[symmetric] f)
  show ?thesis
    unfolding u using f by simp
qed

lemma updateSlide_frame:
  "\<exists>s'. updateSlide dir s = Inr s' \<and>
        isAnimating s' =
          (isAnimating s \<or> (slideAt (storyData s) (currentSlideIndex s) \<noteq> None \<and>
                             contentWrapper s \<and> dir \<noteq> DirNone \<and> animations s)) \<and>
        (dir = DirNone \<longrightarrow> timers s' = timers s) \<and>
        currentSlideIndex s' = currentSlideIndex s \<and> storyData s' = storyData s \<and>
        animations s' = animations s \<and> contentWrapper s' = contentWrapper s \<and>
        keyboardNavigation s' = keyboardNavigation s"
proof (cases "slideAt (storyData s) (currentSlideIndex s)")
  case None
  then show ?thesis by (simp add: updateSlide_def)
next
  case (Some sl)
  define v where "v = (if isValidLocation (location sl)
                       then flyToSlide (currentSlideIndex (updateContent sl dir s)) (updateContent sl dir s)
                       else updateContent sl dir s)"
  define u where "u = updateLineColors (updateButtonStates v)"
  have us: "updateSlide dir s = updateMarkerColors u"
    using Some by (simp add: updateSlide_def Let_def updateMapElements_def u_def v_def)
  have fu: "storyData u = storyData s" "currentSlideIndex u = currentSlideIndex s"
    "animations u = animations s" "contentWrapper u = contentWrapper s"
    "keyboardNavigation u = keyboardNavigation s"
    "isAnimating u = (isAnimating s \<or> (contentWrapper s \<and> dir \<noteq> DirNone \<and> animations s))"
    "dir = DirNone \<longrightarrow> timers u = timers s"
    by (simp_all add: u_def v_def updateContent_isAnimating updateContent_timers)
  have "slideAt (storyData u) (currentSlideIndex u) = Some sl"
    using Some fu by simp
  from updateMarkerColors_frame[OF this] us fu Some show ?thesis
    by auto
qed

section \<open>The invariant\<close>

lemma updateSlide_prepared:
  assumes p: "prepared s"
  shows "\<exists>s'. updateSlide dir s = Inr s' \<and> invariant s' \<and> buttonsOk s' \<and>
           storyData s' = storyData s \<and> currentSlideIndex s' = currentSlideIndex s \<and>
           (inactiveMarkers s' = None \<longleftrightarrow> inactiveMarkers s = None)"
proof -
  let ?c = "currentSlideIndex s"
  from p have r: "inRange s" by (simp add: prepared_def)
  then obtain sl where sl: "slideAt (storyData s) ?c = Some sl"
    by (auto simp: inRange_def slideAt_def)
  define v where "v = (if isValidLocation (location sl)
                       then flyToSlide (currentSlideIndex (updateContent sl dir s)) (updateContent sl dir s)
                       else updateContent sl dir s)"
  define w where "w = updateButtonStates v"
  define u where "u = updateLineColors w"
  have us: "updateSlide dir s = updateMarkerColors u"
    using sl by (simp add: updateSlide_def Let_def updateMapElements_def u_def w_def v_def)
  have fv: "storyData v = storyData s" "currentSlideIndex v = ?c" "lines v = lines s"
    "lineLayers v = lineLayers s" "inactiveMarkers v = inactiveMarkers s"
    "activeMarker v = activeMarker s"
    by (simp_all add: v_def)
  have fw: "storyData w = storyData s" "currentSlideIndex w = ?c" "lines w = lines s"
    "lineLayers w = lineLayers s" "inactiveMarkers w = inactiveMarkers s"
    "activeMarker w = activeMarker s"
    by (simp_all add: w_def fv)
  have ll: "map fst (lineLayers s) = map lineId (lines s)" and dl: "distinct (map lineId (lines s))"
    using p by (auto simp: prepared_def expectedLines_distinct split: option.splits)
  have uw: "u = w\<lparr>lineLayers := map (styled ?c) (lines s)\<rparr>"
    unfolding u_def using updateLineColors_eq[of w] ll dl fw by simp
  have fu: "storyData u = storyData s" "currentSlideIndex u = ?c" "lines u = lines s"
    "lineLayers u = map (styled ?c) (lines s)" "inactiveMarkers u = inactiveMarkers s"
    "activeMarker u = activeMarker s"
    by (simp_all add: uw fw)
  have ru: "inRange u" using r fu by (simp add: inRange_def)
  have "inRange v" using r fv by (simp add: inRange_def)
  then have "buttonsOk w" unfolding w_def by (rule updateButtonStates_ok)
  then have bu: "buttonsOk u" by (simp add: buttonsOk_def uw)
  show ?thesis
  proof (cases "inactiveMarkers s")
    case None
    with p have an: "activeMarker s = None" and l0: "lines s = []"
      by (simp_all add: prepared_def)
    have "updateMarkerColors u = Inr u"
      by (rule updateMarkerColors_no_sources) (simp_all add: fu None an ru)
    moreover have "invariant u"
      using ru bu by (simp add: invariant_def markersOk_def linesOk_def fu None an l0)
    ultimately show ?thesis using us bu fu None by simp
  next
    case (Some ina)
    with p obtain act where act: "activeMarker s = Some act"
      and pa: "partitioned (storyData s) ina act" and le: "lines s = expectedLines (storyData s)"
      by (auto simp: prepared_def split: option.splits)
    from updateMarkerColors_partitioned[of u ina act] fu Some act pa ru
    obtain ina' act' where
      um: "updateMarkerColors u = Inr (u\<lparr>inactiveMarkers := Some ina', activeMarker := Some act'\<rparr>)"
      and pa': "partitioned (storyData s) ina' act'"
      and a': "map slideIndex act' =
                 (if validIndex (storyData s) ?c then [?c] else [])"
      by auto
    let ?u' = "u\<lparr>inactiveMarkers := Some ina', activeMarker := Some act'\<rparr>"
    have bu': "buttonsOk ?u'" using bu by (simp add: buttonsOk_def)
    have "inRange ?u'" using ru by (simp add: inRange_def)
    moreover have "markersOk ?u'" using pa' a' by (simp add: markersOk_def fu)
    moreover have "linesOk ?u'" using le by (simp add: linesOk_def fu)
    ultimately have "invariant ?u'" using bu' by (simp add: invariant_def)
    with us um bu' fu Some show ?thesis by simp
  qed
qed

lemma invariant_prepared:
  assumes "invariant s" "0 \<le> c" "c < int (length (storyData s))"
  shows "prepared (s\<lparr>currentSlideIndex := c\<rparr>)"
  using assms
  by (auto simp: invariant_def prepared_def inRange_def markersOk_def linesOk_def styled_def comp_def
      split: option.splits if_splits)

lemma prepared_flyToSlide [simp]: "prepared (flyToSlide i s) = prepared s"
  by (simp add: prepared_def inRange_def cong: option.case_cong)

lemma fireTimer_fields [simp]:
  "storyData (fireTimer s) = storyData s"
  "currentSlideIndex (fireTimer s) = currentSlideIndex s"
  "lines (fireTimer s) = lines s"
  "lineLayers (fireTimer s) = lineLayers s"
  "inactiveMarkers (fireTimer s) = inactiveMarkers s"
  "activeMarker (fireTimer s) = activeMarker s"
  "animations (fireTimer s) = animations s"
  "keyboardNavigation (fireTimer s) = keyboardNavigation s"
  "contentWrapper (fireTimer s) = contentWrapper s"
  "prevBtn (fireTimer s) = prevBtn s"
  "nextBtn (fireTimer s) = nextBtn s"
  "restartBtn (fireTimer s) = restartBtn s"
  "camera (fireTimer s) = camera s"
  by (simp_all add: fireTimer_def updateSlideContent_def split: list.splits timer.splits)

lemma invariant_fireTimer: "invariant (fireTimer s) = invariant s"
  by (simp add: invariant_def inRange_def markersOk_def linesOk_def buttonsOk_def
      cong: option.case_cong)

lemma navigateTo_invariant:
  assumes "invariant s" "0 \<le> c" "c < int (length (storyData s))"
  shows "\<exists>s'. updateSlide dir (s\<lparr>currentSlideIndex := c\<rparr>) = Inr s' \<and> invariant s' \<and>
           currentSlideIndex s' = c \<and>
           (inactiveMarkers s' = None \<longleftrightarrow> inactiveMarkers s = None)"
  using updateSlide_prepared[OF invariant_prepared[OF assms], of dir] by auto

lemma navigatePrevious_invariant:
  assumes "invariant s"
  shows "\<exists>s'. navigatePrevious s = Inr s' \<and> invariant s' \<and>
           (inactiveMarkers s' = None \<longleftrightarrow> inactiveMarkers s = None)"
proof (cases "currentSlideIndex s > 0 \<and> \<not> isAnimating s")
  case True
  from assms have "currentSlideIndex s < int (length (storyData s))"
    by (simp add: invariant_def inRange_def)
  with True navigateTo_invariant[OF assms, of "currentSlideIndex s - 1" DirPrev]
  show ?thesis by (auto simp: navigatePrevious_def)
next
  case False
  with assms show ?thesis by (auto simp: navigatePrevious_def)
qed

lemma navigateNext_invariant:
  assumes "invariant s"
  shows "\<exists>s'. navigateNext s = Inr s' \<and> invariant s' \<and>
           (inactiveMarkers s' = None \<longleftrightarrow> inactiveMarkers s = None)"
proof (cases "currentSlideIndex s < int (length (storyData s)) - 1 \<and> \<not> isAnimating s")
  case True
  from assms have "0 \<le> currentSlideIndex s"
    by (simp add: invariant_def inRange_def)
  with True navigateTo_invariant[OF assms, of "currentSlideIndex s + 1" DirNext]
  show ?thesis by (auto simp: navigateNext_def)
next
  case False
  with assms show ?thesis by (auto simp: navigateNext_def)
qed

lemma navigateToSlide_invariant:
  assumes "invariant s"
  shows "\<exists>s'. navigateToSlide i s = Inr s' \<and> invariant s' \<and>
           (inactiveMarkers s' = None \<longleftrightarrow> inactiveMarkers s = None)"
proof (cases "i \<ge> 0 \<and> i < int (length (storyData s)) \<and> \<not> isAnimating s")
  case True
  with navigateTo_invariant[OF assms, of i DirNone]
  show ?thesis by (auto simp: navigateToSlide_def)
next
  case False
  with assms show ?thesis by (auto simp: navigateToSlide_def)
qed

lemma restart_invariant:
  assumes "invariant s"
  shows "\<exists>s'. restart s = Inr s' \<and> invariant s' \<and>
           (inactiveMarkers s' = None \<longleftrightarrow> inactiveMarkers s = None)"
proof (cases "isAnimating s")
  case True
  with assms show ?thesis by (simp add: restart_def)
next
  case False
  from assms have "0 < int (length (storyData s))"
    by (auto simp: invariant_def inRange_def)
  then have p: "prepared (s\<lparr>currentSlideIndex := 0\<rparr>)"
    by (intro invariant_prepared[OF assms]) simp_all
  define s2 where "s2 = (case findIndex (\<lambda>sl. isValidLocation (location sl)) (storyData s) of
                        None \<Rightarrow> s\<lparr>currentSlideIndex := 0\<rparr>
                      | Some k \<Rightarrow> flyToSlide (int k) (s\<lparr>currentSlideIndex := 0\<rparr>))"
  have "prepared s2" using p by (simp add: s2_def split: option.splits)
  moreover have "inactiveMarkers s2 = inactiveMarkers s"
    by (simp add: s2_def split: option.splits)
  ultimately obtain s' where
    "updateSlide DirNone s2 = Inr s'" "invariant s'"
    "inactiveMarkers s' = None \<longleftrightarrow> inactiveMarkers s = None"
    using updateSlide_prepared[of s2 DirNone] by auto
  moreover have "restart s = updateSlide DirNone s2"
    using False by (simp add: restart_def s2_def Let_def)
  ultimately show ?thesis by simp
qed

lemma onMarkerClick_invariant:
  assumes "invariant s"
  shows "\<exists>s'. onMarkerClick fs s = Inr s' \<and> invariant s' \<and>
           (inactiveMarkers s' = None \<longleftrightarrow> inactiveMarkers s = None)"
  using assms navigateToSlide_invariant[OF assms]
  by (cases fs) (auto simp: onMarkerClick_def)

lemma onKeyDown_invariant:
  assumes "invariant s"
  shows "\<exists>s'. onKeyDown k s = Inr s' \<and> invariant s' \<and>
           (inactiveMarkers s' = None \<longleftrightarrow> inactiveMarkers s = None)"
  using assms navigatePrevious_invariant[OF assms] navigateNext_invariant[OF assms]
  by (cases k) (auto simp: onKeyDown_def)

lemma onMapLoad_invariant:
  assumes i: "invariant s" and n: "inactiveMarkers s = None"
  shows "\<exists>s'. onMapLoad s = Inr s' \<and> invariant s' \<and> inactiveMarkers s' \<noteq> None"
proof -
  from i n have l: "lines s = []" "lineLayers s = []" and r: "inRange s"
    by (simp_all add: invariant_def linesOk_def)
  let ?E = "expectedLines (storyData s)"
  let ?t = "s\<lparr>lineLayers := map (\<lambda>e. (lineId e, LineColor)) ?E, lines := ?E\<rparr>"
  have t: "createAllLines s = ?t" by (rule createAllLines_eq[OF l])
  have rt: "inRange ?t" using r by (simp add: inRange_def)
  from createAllMarkers_partitioned[OF rt] obtain ina act where
    m: "createAllMarkers ?t = Inr (?t\<lparr>inactiveMarkers := Some ina, activeMarker := Some act\<rparr>)"
    and p: "partitioned (storyData s) ina act" by auto
  let ?m = "?t\<lparr>inactiveMarkers := Some ina, activeMarker := Some act\<rparr>"
  have "prepared ?m"
    using r p by (simp add: prepared_def inRange_def comp_def)
  from updateSlide_prepared[OF this, of DirNone] obtain s' where
    "updateSlide DirNone ?m = Inr s'" "invariant s'" "inactiveMarkers s' \<noteq> None" by auto
  moreover have "onMapLoad s = updateSlide DirNone ?m"
    by (simp add: onMapLoad_def t m andThen_def)
  ultimately show ?thesis by simp
qed

lemma handle_invariant:
  assumes "invariant s"
  shows "\<exists>s'. handle ev s = Inr s' \<and> invariant s' \<and>
               (inactiveMarkers s \<noteq> None \<or> ev = MapLoad \<longrightarrow> inactiveMarkers s' \<noteq> None)"
proof (cases ev)
  case ClickPrev
  with assms navigatePrevious_invariant[OF assms] show ?thesis by auto
next
  case ClickNext
  with assms navigateNext_invariant[OF assms] show ?thesis by auto
next
  case ClickRestart
  with assms restart_invariant[OF assms] show ?thesis by auto
next
  case (KeyDown k)
  with onKeyDown_invariant[OF assms, of k] show ?thesis by auto
next
  case (MarkerClick fs)
  with assms onMarkerClick_invariant[OF assms, of fs] show ?thesis by auto
next
  case (GoToSlide i)
  with navigateToSlide_invariant[OF assms, of i] show ?thesis by auto
next
  case ApiNext
  with navigateNext_invariant[OF assms] show ?thesis by auto
next
  case ApiPrevious
  with navigatePrevious_invariant[OF assms] show ?thesis by auto
next
  case TimerFires
  with assms show ?thesis by (simp add: invariant_fireTimer)
next
  case MapLoad
  show ?thesis
  proof (cases "inactiveMarkers s")
    case None
    with MapLoad onMapLoad_invariant[OF assms None] show ?thesis by auto
  next
    case (Some ina)
    with MapLoad assms show ?thesis by simp
  qed
qed

lemma run_invariant:
  assumes "invariant s"
  shows "\<exists>s'. run evs s = Inr s' \<and> invariant s' \<and>
               (inactiveMarkers s \<noteq> None \<or> MapLoad \<in> set evs \<longrightarrow> inactiveMarkers s' \<noteq> None)"
  using assms
proof (induction evs arbitrary: s)
  case Nil
  then show ?case by simp
next
  case (Cons ev evs)
  from handle_invariant[OF Cons.prems, of ev] obtain s1 where
    h: "handle ev s = Inr s1" and i1: "invariant s1"
    and l1: "inactiveMarkers s \<noteq> None \<or> ev = MapLoad \<longrightarrow> inactiveMarkers s1 \<noteq> None"
    by blast
  from Cons.IH[OF i1] obtain s' where
    r: "run evs s1 = Inr s'" and i': "invariant s'"
    and l': "inactiveMarkers s1 \<noteq> None \<or> MapLoad \<in> set evs \<longrightarrow> inactiveMarkers s' \<noteq> None"
    by blast
  have "run (ev # evs) s = Inr s'" using h r by (simp add: andThen_def)
  with i' l1 l' show ?case by auto
qed

lemma loadStoryData_hasMap:
  "loadStoryData cfg fetched st = Inr st1 \<Longrightarrow> hasMap st1 = hasMap st"
  by (auto simp: loadStoryData_def split: option.splits sum.splits if_splits)

lemma initializeMap_slides:
  assumes "initializeMap cfg st1 = Inr st2"
  shows "\<exists>sd. loadedData st2 = Some (SlideArray sd) \<and>
              List.find (\<lambda>sl. isValidLocation (location sl)) sd \<noteq> None"
  using assms
  by (auto simp: initializeMap_def Let_def split: option.splits payload.splits if_splits)

lemma initialize_with_map:
  assumes i: "initialize cfg fetched newInstance = Inr st" and h: "hasMap st"
  shows "\<exists>sd. loadedData st = Some (SlideArray sd) \<and>
              List.find (\<lambda>sl. isValidLocation (location sl)) sd \<noteq> None"
proof (cases "loadStoryData cfg fetched newInstance")
  case (Inl e)
  with i h show ?thesis by (auto simp: initialize_def newInstance_def)
next
  case (Inr st1)
  from loadStoryData_hasMap[OF Inr] have h1: "\<not> hasMap st1" by (simp add: newInstance_def)
  show ?thesis
  proof (cases "initializeMap cfg st1")
    case (Inl e)
    with i h h1 Inr show ?thesis by (auto simp: initialize_def)
  next
    case st2: (Inr st2)
    with i Inr have "st = setupEventListeners st2" by (simp add: initialize_def)
    with initializeMap_slides[OF st2] show ?thesis by (simp add: setupEventListeners_def)
  qed
qed

lemma started_invariant:
  assumes "started cfg fetched pg = Some s0"
  shows "invariant s0" and "inactiveMarkers s0 = None"
proof -
  from assms obtain st sd where
    i: "initialize cfg fetched newInstance = Inr st" and d: "loadedData st = Some (SlideArray sd)"
    and h: "hasMap st"
    and s0: "s0 = \<lparr>animations = featureAnimations cfg,
                          keyboardNavigation = featureKeyboardNavigation cfg,
                          storyData = sd, currentSlideIndex = 0, isAnimating = False,
                          lines = [], inactiveMarkers = None, activeMarker = None,
                          lineLayers = [], camera = None,
                          contentWrapper = pageContentWrapper pg, displayed = None, timers = [],
                          prevBtn = pagePrevBtn pg, nextBtn = pageNextBtn pg,
                          restartBtn = pageRestartBtn pg\<rparr>"
    by (auto simp: started_def split: sum.splits option.splits payload.splits if_splits)
  from initialize_with_map[OF i h] d have "List.find (\<lambda>sl. isValidLocation (location sl)) sd \<noteq> None"
    by auto
  then have "sd \<noteq> []" by auto
  then show "invariant s0"
    by (simp add: s0 invariant_def inRange_def markersOk_def linesOk_def)
  show "inactiveMarkers s0 = None" using s0 by simp
qed

lemma started_demo: "started demoConfig (Inl TypeError) demoPage = Some demoStory"
  by (simp add: started_def initialize_def loadStoryData_def initializeMap_def demoConfig_def
      demoPage_def demoStory_def newInstance_def setupEventListeners_def demoSlides_def
      demoLocation_def isValidLocation_def isNaN_def)

lemma run_demoLoaded: "run [MapLoad] demoStory = Inr demoLoaded"
  by code_simp

lemma run_demoAnimating: "run [MapLoad, ClickNext] demoStory = Inr demoAnimating"
  by code_simp

lemma partitioned_exactly_one:
  assumes "partitioned sd ina act"
  shows "validIndex sd i \<Longrightarrow> (i \<in> set (map slideIndex act)) \<noteq> (i \<in> set (map slideIndex ina))"
    and "\<not> validIndex sd i \<Longrightarrow> i \<notin> set (map slideIndex act) \<and> i \<notin> set (map slideIndex ina)"
  using assms unfolding partitioned_def by auto

section \<open>Reachable states\<close>

text \<open>
  C1. From an instance that \<open>initialize\<close> has started, every sequence of events runs
  without an error, and in the state it reaches, once the marker sources exist (they do
  after the map's load event): the active source holds at most one feature; it is non-empty
  exactly when the current slide has a valid location; no slide index occurs twice in the
  two sources; every index with a valid location is in exactly one of the two, and an index
  without one is in neither.
\<close>

theorem markers_single_active_partition:
  assumes "started cfg fetched pg = Some s0"
  shows "\<exists>s. run evs s0 = Inr s \<and>
           (MapLoad \<in> set evs \<longrightarrow> inactiveMarkers s \<noteq> None) \<and>
           (\<forall>ina. inactiveMarkers s = Some ina \<longrightarrow>
              (\<exists>act. activeMarker s = Some act \<and> length act \<le> 1 \<and>
                 (act \<noteq> [] \<longleftrightarrow> validIndex (storyData s) (currentSlideIndex s)) \<and>
                 distinct (map slideIndex (ina @ act)) \<and>
                 (\<forall>i. validIndex (storyData s) i \<longrightarrow>
                    (i \<in> set (map slideIndex act)) \<noteq> (i \<in> set (map slideIndex ina))) \<and>
                 (\<forall>i. \<not> validIndex (storyData s) i \<longrightarrow>
                    i \<notin> set (map slideIndex act) \<and> i \<notin> set (map slideIndex ina))))"
proof -
  from run_invariant[OF started_invariant(1)[OF assms], of evs] obtain s where
    r: "run evs s0 = Inr s" and i: "invariant s"
    and l: "MapLoad \<in> set evs \<longrightarrow> inactiveMarkers s \<noteq> None"
    by blast
  have "\<exists>act. activeMarker s = Some act \<and> length act \<le> 1 \<and>
                 (act \<noteq> [] \<longleftrightarrow> validIndex (storyData s) (currentSlideIndex s)) \<and>
                 distinct (map slideIndex (ina @ act)) \<and>
                 (\<forall>i. validIndex (storyData s) i \<longrightarrow>
                    (i \<in> set (map slideIndex act)) \<noteq> (i \<in> set (map slideIndex ina))) \<and>
                 (\<forall>i. \<not> validIndex (storyData s) i \<longrightarrow>
                    i \<notin> set (map slideIndex act) \<and> i \<notin> set (map slideIndex ina))"
    if ina: "inactiveMarkers s = Some ina" for ina
  proof -
    from i ina obtain act where act: "activeMarker s = Some act"
      and p: "partitioned (storyData s) ina act"
      and a: "map slideIndex act =
                (if validIndex (storyData s) (currentSlideIndex s) then [currentSlideIndex s] else [])"
      by (auto simp: invariant_def markersOk_def split: option.splits)
    from p have "length act \<le> 1" "distinct (map slideIndex (ina @ act))"
      by (simp_all add: partitioned_def)
    moreover from a have "act \<noteq> [] \<longleftrightarrow> validIndex (storyData s) (currentSlideIndex s)"
      by (cases act) (auto split: if_splits)
    ultimately show ?thesis
      using act partitioned_exactly_one[OF p] by blast
  qed
  with r l show ?thesis by blast
qed

theorem markers_single_active_partition_witness:
  "run [MapLoad, ClickNext] demoStory = Inr demoAnimating \<and>
   (\<exists>ina act. inactiveMarkers demoAnimating = Some ina \<and> activeMarker demoAnimating = Some act \<and>
      length act \<le> 1 \<and> act \<noteq> [] \<and>
      validIndex (storyData demoAnimating) (currentSlideIndex demoAnimating) \<and>
      distinct (map slideIndex (ina @ act)) \<and>
      (1 \<in> set (map slideIndex act)) \<noteq> (1 \<in> set (map slideIndex ina)))"
proof -
  have v: "validIndex (storyData demoAnimating) (currentSlideIndex demoAnimating)"
    "validIndex (storyData demoAnimating) 1"
    by code_simp+
  have m: "MapLoad \<in> set [MapLoad, ClickNext]" by simp
  from markers_single_active_partition[OF started_demo, of "[MapLoad, ClickNext]"]
  show ?thesis
    unfolding run_demoAnimating using v m by fastforce
qed

lemma filter_key_at_most_one:
  assumes "distinct (map g xs)"
  shows "length (filter (\<lambda>x. g x = c) xs) \<le> 1"
  using assms
proof (induction xs)
  case Nil
  then show ?case by simp
next
  case (Cons x xs)
  show ?case
  proof (cases "g x = c")
    case True
    have "g y \<noteq> c" if "y \<in> set xs" for y
      using Cons.prems True that by (auto simp: image_iff)
    then have "filter (\<lambda>x. g x = c) xs = []"
      by (simp add: filter_empty_conv)
    with True show ?thesis by simp
  next
    case False
    with Cons show ?thesis by simp
  qed
qed

lemma expectedLines_targets_distinct: "distinct (map targetSlideIndex (expectedLines sd))"
  by (simp add: expectedLines_def comp_def distinct_map inj_on_def)

lemma updateLineColors_layers: "map fst (lineLayers (updateLineColors s)) = map fst (lineLayers s)"
  by (simp add: updateLineColors_def updateLineColors_fold comp_def)

text \<open>
  C8. For a started instance, \<open>createAllLines\<close> registers one line per slide index \<open>i\<close>
  whose slide has \<open>line === true\<close> and a valid location and whose successor has a valid
  location, in slide order, with id \<open>i\<close> and target \<open>i + 1\<close>, and nothing else. In every state
  reached after the map has loaded these are the registered lines, each line's layer has the
  active colour if its target is the current index and the inactive colour otherwise, and at
  most one line has the current index as target. \<open>updateLineColors\<close> never adds or removes
  a line or a layer.
\<close>

theorem lines_built_and_restyled:
  assumes "started cfg fetched pg = Some s0" and "run evs s0 = Inr s" and "MapLoad \<in> set evs"
  shows "lines (createAllLines s0) =
           map (\<lambda>i. \<lparr>lineId = int i, targetSlideIndex = int i + 1\<rparr>)
               (filter (wantsLineAt (storyData s0)) [0..<length (storyData s0) - 1]) \<and>
         lines s =
           map (\<lambda>i. \<lparr>lineId = int i, targetSlideIndex = int i + 1\<rparr>)
               (filter (wantsLineAt (storyData s)) [0..<length (storyData s) - 1]) \<and>
         lineLayers s =
           map (\<lambda>e. (lineId e, if targetSlideIndex e = currentSlideIndex s
                                then LineColorActive else LineColor)) (lines s) \<and>
         length (filter (\<lambda>e. targetSlideIndex e = currentSlideIndex s) (lines s)) \<le> 1 \<and>
         lines (updateLineColors s) = lines s \<and>
         map fst (lineLayers (updateLineColors s)) = map fst (lineLayers s)"
proof -
  from started_invariant[OF assms(1)] have "lines s0 = []" "lineLayers s0 = []"
    by (simp_all add: invariant_def linesOk_def)
  then have c: "lines (createAllLines s0) = expectedLines (storyData s0)"
    by (simp add: createAllLines_eq)
  from run_invariant[OF started_invariant(1)[OF assms(1)], of evs] assms(2,3)
  have "invariant s" "inactiveMarkers s \<noteq> None" by auto
  then have l: "lines s = expectedLines (storyData s)"
    and y: "lineLayers s = map (styled (currentSlideIndex s)) (lines s)"
    by (simp_all add: invariant_def linesOk_def)
  have "length (filter (\<lambda>e. targetSlideIndex e = currentSlideIndex s) (lines s)) \<le> 1"
    unfolding l by (rule filter_key_at_most_one[OF expectedLines_targets_distinct])
  with c l y show ?thesis
    by (simp add: expectedLines_def styled_def[abs_def] updateLineColors_layers)
qed


theorem lines_built_and_restyled_witness:
  "lines (createAllLines demoStory) = [\<lparr>lineId = 0, targetSlideIndex = 1\<rparr>] \<and>
   lines demoAnimating = [\<lparr>lineId = 0, targetSlideIndex = 1\<rparr>] \<and>
   currentSlideIndex demoAnimating = 1 \<and>
   lineLayers demoAnimating = [(0, LineColorActive)] \<and>
   lines (updateLineColors demoAnimating) = lines demoAnimating"
proof -
  have m: "MapLoad \<in> set [MapLoad, ClickNext]" by simp
  have e0: "map (\<lambda>i. \<lparr>lineId = int i, targetSlideIndex = int i + 1\<rparr>)
               (filter (wantsLineAt (storyData demoStory)) [0..<length (storyData demoStory) - 1])
            = [\<lparr>lineId = 0, targetSlideIndex = 1\<rparr>]"
    by code_simp
  have e1: "map (\<lambda>i. \<lparr>lineId = int i, targetSlideIndex = int i + 1\<rparr>)
               (filter (wantsLineAt (storyData demoAnimating)) [0..<length (storyData demoAnimating) - 1])
            = [\<lparr>lineId = 0, targetSlideIndex = 1\<rparr>]"
    by code_simp
  have c: "currentSlideIndex demoAnimating = 1" by code_simp
  note t = lines_built_and_restyled[OF started_demo run_demoAnimating m, unfolded e0 e1 c]
  from t have l: "lines demoAnimating = [\<lparr>lineId = 0, targetSlideIndex = 1\<rparr>]" by simp
  from t show ?thesis unfolding l using c by simp
qed

section \<open>Jumps without animation\<close>

lemma createAllLines_isAnimating [simp]: "isAnimating (createAllLines s) = isAnimating s"
  by (simp add: createAllLines_def createLinesFrom_eq)

lemma createAllLines_setup [simp]:
  "animations (createAllLines s) = animations s"
  "contentWrapper (createAllLines s) = contentWrapper s"
  by (simp_all add: createAllLines_def createLinesFrom_eq)

lemma createAllMarkers_isAnimating:
  "createAllMarkers s = Inr m \<Longrightarrow>
     isAnimating m = isAnimating s \<and> animations m = animations s \<and>
     contentWrapper m = contentWrapper s"
  by (auto simp: createAllMarkers_def Let_def createActiveMarker_def createInactiveMarkers_def
      split: option.splits if_splits)

lemma updateSlide_locks:
  assumes "updateSlide dir t = Inr s'" "isAnimating s'" "\<not> isAnimating t"
  shows "dir \<noteq> DirNone \<and> animations t \<and> contentWrapper t"
  using updateSlide_frame[of dir t] assms by auto

lemma updateSlide_none:
  "\<exists>s'. updateSlide DirNone s = Inr s' \<and> isAnimating s' = isAnimating s \<and>
        timers s' = timers s \<and> currentSlideIndex s' = currentSlideIndex s \<and>
        storyData s' = storyData s"
  using updateSlide_frame[of DirNone s] by auto

lemma navigateToSlide_none:
  "\<exists>s'. navigateToSlide i s = Inr s' \<and> isAnimating s' = isAnimating s \<and> timers s' = timers s \<and>
        storyData s' = storyData s \<and>
        (0 \<le> i \<and> i < int (length (storyData s)) \<and> \<not> isAnimating s \<longrightarrow> currentSlideIndex s' = i)"
proof (cases "i \<ge> 0 \<and> i < int (length (storyData s)) \<and> \<not> isAnimating s")
  case True
  with updateSlide_none[of "s\<lparr>currentSlideIndex := i\<rparr>"] show ?thesis
    by (auto simp: navigateToSlide_def)
next
  case False
  then show ?thesis by (auto simp: navigateToSlide_def)
qed

lemma restart_none:
  "\<exists>s'. restart s = Inr s' \<and> isAnimating s' = isAnimating s \<and> timers s' = timers s"
proof (cases "isAnimating s")
  case True
  then show ?thesis by (simp add: restart_def)
next
  case False
  define s2 where "s2 = (case findIndex (\<lambda>sl. isValidLocation (location sl)) (storyData s) of
                        None \<Rightarrow> s\<lparr>currentSlideIndex := 0\<rparr>
                      | Some k \<Rightarrow> flyToSlide (int k) (s\<lparr>currentSlideIndex := 0\<rparr>))"
  have f: "isAnimating s2 = isAnimating s" "timers s2 = timers s"
    by (simp_all add: s2_def split: option.splits)
  have "restart s = updateSlide DirNone s2"
    using False by (simp add: restart_def s2_def Let_def)
  with updateSlide_none[of s2] f show ?thesis by auto
qed

lemma onMarkerClick_none:
  "\<exists>s'. onMarkerClick fs s = Inr s' \<and> isAnimating s' = isAnimating s \<and> timers s' = timers s"
  using navigateToSlide_none[of _ s] by (cases fs) (auto simp: onMarkerClick_def)

lemma goToSlide_sequence:
  assumes "\<not> isAnimating s" "\<forall>t\<in>set ts. 0 \<le> t \<and> t < int (length (storyData s))"
  shows "\<exists>s'. run (map GoToSlide ts) s = Inr s' \<and> \<not> isAnimating s' \<and>
              currentSlideIndex s' = last (currentSlideIndex s # ts)"
  using assms
proof (induction ts arbitrary: s)
  case Nil
  then show ?case by simp
next
  case (Cons t ts)
  from navigateToSlide_none[of t s] Cons.prems obtain s1 where
    n: "navigateToSlide t s = Inr s1" and a: "\<not> isAnimating s1"
    and sd: "storyData s1 = storyData s" and c: "currentSlideIndex s1 = t"
    by auto
  from Cons.IH[of s1] a sd Cons.prems(2) obtain s' where
    "run (map GoToSlide ts) s1 = Inr s'" "\<not> isAnimating s'"
    "currentSlideIndex s' = last (currentSlideIndex s1 # ts)"
    by auto
  with n c show ?case by (auto simp: andThen_def)
qed

lemma navigatePrevious_locks:
  assumes "navigatePrevious s = Inr s'" "isAnimating s'" "\<not> isAnimating s"
  shows "animations s \<and> contentWrapper s"
proof (cases "currentSlideIndex s > 0")
  case True
  with assms updateSlide_locks[of DirPrev "s\<lparr>currentSlideIndex := currentSlideIndex s - 1\<rparr>" s']
  show ?thesis by (simp add: navigatePrevious_def)
next
  case False
  with assms show ?thesis by (simp add: navigatePrevious_def)
qed

lemma navigateNext_locks:
  assumes "navigateNext s = Inr s'" "isAnimating s'" "\<not> isAnimating s"
  shows "animations s \<and> contentWrapper s"
proof (cases "currentSlideIndex s < int (length (storyData s)) - 1")
  case True
  with assms updateSlide_locks[of DirNext "s\<lparr>currentSlideIndex := currentSlideIndex s + 1\<rparr>" s']
  show ?thesis by (simp add: navigateNext_def)
next
  case False
  with assms show ?thesis by (simp add: navigateNext_def)
qed

lemma fireTimer_not_locks: "\<not> isAnimating s \<Longrightarrow> \<not> isAnimating (fireTimer s)"
  by (simp add: fireTimer_def updateSlideContent_def split: list.splits timer.splits)

lemma onMapLoad_not_locks:
  assumes "onMapLoad s = Inr s'" "\<not> isAnimating s"
  shows "\<not> isAnimating s'"
proof -
  from assms(1) obtain m where m: "createAllMarkers (createAllLines s) = Inr m"
    and u: "updateSlide DirNone m = Inr s'"
    by (auto simp: onMapLoad_def andThen_def split: sum.splits)
  from createAllMarkers_isAnimating[OF m] assms(2) have "\<not> isAnimating m" by simp
  with updateSlide_none[of m] u show ?thesis by auto
qed


section \<open>The buttons before and after the first slide update\<close>

lemma navigateTo_buttons:
  assumes "invariant s" "0 \<le> c" "c < int (length (storyData s))"
    and "updateSlide dir (s\<lparr>currentSlideIndex := c\<rparr>) = Inr s'"
  shows "buttonsOk s'"
  using updateSlide_prepared[OF invariant_prepared[OF assms(1-3)], of dir] assms(4) by auto

lemma sameControls_refl [simp]: "sameControls s s"
  by (simp add: sameControls_def)

lemma navigatePrevious_buttons:
  assumes "invariant s" "navigatePrevious s = Inr s'"
  shows "buttonsOk s' \<or> sameControls s s'"
proof (cases "currentSlideIndex s > 0 \<and> \<not> isAnimating s")
  case True
  from assms(1) have "currentSlideIndex s < int (length (storyData s))"
    by (simp add: invariant_def inRange_def)
  with True assms navigateTo_buttons[OF assms(1), of "currentSlideIndex s - 1" DirPrev s']
  show ?thesis by (auto simp: navigatePrevious_def)
next
  case False
  with assms show ?thesis by (auto simp: navigatePrevious_def)
qed

lemma navigateNext_buttons:
  assumes "invariant s" "navigateNext s = Inr s'"
  shows "buttonsOk s' \<or> sameControls s s'"
proof (cases "currentSlideIndex s < int (length (storyData s)) - 1 \<and> \<not> isAnimating s")
  case True
  from assms(1) have "0 \<le> currentSlideIndex s"
    by (simp add: invariant_def inRange_def)
  with True assms navigateTo_buttons[OF assms(1), of "currentSlideIndex s + 1" DirNext s']
  show ?thesis by (auto simp: navigateNext_def)
next
  case False
  with assms show ?thesis by (auto simp: navigateNext_def)
qed

lemma navigateToSlide_buttons:
  assumes "invariant s" "navigateToSlide i s = Inr s'"
  shows "buttonsOk s' \<or> sameControls s s'"
proof (cases "i \<ge> 0 \<and> i < int (length (storyData s)) \<and> \<not> isAnimating s")
  case True
  with assms navigateTo_buttons[OF assms(1), of i DirNone s']
  show ?thesis by (auto simp: navigateToSlide_def)
next
  case False
  with assms show ?thesis by (auto simp: navigateToSlide_def)
qed

lemma restart_buttons:
  assumes "invariant s" "restart s = Inr s'"
  shows "buttonsOk s' \<or> sameControls s s'"
proof (cases "isAnimating s")
  case True
  with assms show ?thesis by (simp add: restart_def)
next
  case False
  from assms(1) have "0 < int (length (storyData s))"
    by (auto simp: invariant_def inRange_def)
  then have p: "prepared (s\<lparr>currentSlideIndex := 0\<rparr>)"
    by (intro invariant_prepared[OF assms(1)]) simp_all
  define s2 where "s2 = (case findIndex (\<lambda>sl. isValidLocation (location sl)) (storyData s) of
                        None \<Rightarrow> s\<lparr>currentSlideIndex := 0\<rparr>
                      | Some k \<Rightarrow> flyToSlide (int k) (s\<lparr>currentSlideIndex := 0\<rparr>))"
  have "prepared s2" using p by (simp add: s2_def split: option.splits)
  moreover have "restart s = updateSlide DirNone s2"
    using False by (simp add: restart_def s2_def Let_def)
  ultimately show ?thesis
    using updateSlide_prepared[of s2 DirNone] assms(2) by auto
qed

lemma handle_buttons:
  assumes i: "invariant s" and h: "handle ev s = Inr s'"
  shows "buttonsOk s' \<or> sameControls s s'"
proof (cases ev)
  case ClickPrev
  with h navigatePrevious_buttons[OF i, of s'] show ?thesis by (auto split: if_splits)
next
  case ClickNext
  with h navigateNext_buttons[OF i, of s'] show ?thesis by (auto split: if_splits)
next
  case ClickRestart
  with h restart_buttons[OF i, of s'] show ?thesis by (auto split: if_splits)
next
  case (KeyDown k)
  with h navigatePrevious_buttons[OF i, of s'] navigateNext_buttons[OF i, of s']
  show ?thesis by (cases k) (auto simp: onKeyDown_def split: if_splits)
next
  case (MarkerClick fs)
  with h navigateToSlide_buttons[OF i, of _ s']
  show ?thesis by (cases fs) (auto simp: onMarkerClick_def split: if_splits)
next
  case (GoToSlide j)
  with h navigateToSlide_buttons[OF i, of j s'] show ?thesis by simp
next
  case ApiNext
  with h navigateNext_buttons[OF i, of s'] show ?thesis by simp
next
  case ApiPrevious
  with h navigatePrevious_buttons[OF i, of s'] show ?thesis by simp
next
  case TimerFires
  with h show ?thesis by (auto simp: sameControls_def)
next
  case MapLoad
  show ?thesis
  proof (cases "inactiveMarkers s")
    case None
    from onMapLoad_invariant[OF i None] MapLoad h None
    have "invariant s'" "inactiveMarkers s' \<noteq> None" by auto
    then show ?thesis by (simp add: invariant_def)
  next
    case (Some ina)
    with MapLoad h show ?thesis by auto
  qed
qed

lemma run_buttons:
  assumes "invariant s" "buttonsOk s \<or> buttonsAsDeclared pg s" "run evs s = Inr s'"
  shows "buttonsOk s' \<or> buttonsAsDeclared pg s'"
  using assms
proof (induction evs arbitrary: s)
  case Nil
  then show ?case by simp
next
  case (Cons ev evs)
  from handle_invariant[OF Cons.prems(1), of ev] obtain s1 where
    h: "handle ev s = Inr s1" and i1: "invariant s1" by blast
  from handle_buttons[OF Cons.prems(1) h] have "buttonsOk s1 \<or> sameControls s s1" .
  with Cons.prems(2) have b1: "buttonsOk s1 \<or> buttonsAsDeclared pg s1"
    by (auto simp: sameControls_def buttonsOk_def buttonsAsDeclared_def)
  from Cons.prems(3) h have "run evs s1 = Inr s'" by (simp add: andThen_def)
  from Cons.IH[OF i1 b1 this] show ?case .
qed

lemma started_buttonsAsDeclared:
  "started cfg fetched pg = Some s0 \<Longrightarrow> buttonsAsDeclared pg s0"
  by (auto simp: started_def buttonsAsDeclared_def
      split: sum.splits option.splits payload.splits if_splits)

text \<open>
  C7 (as amended). A request for slide \<open>-1\<close> or for slide \<open>N\<close> of a story of \<open>N\<close> slides
  changes nothing. In every state that a started instance reaches, either a slide update
  has run and then a previous or restart button that exists is disabled exactly when the
  current index is 0 and a next button that exists exactly when it is \<open>N - 1\<close>, or none has
  run yet and the instance is at slide 0 with the buttons as the page declared them. The
  map's load handler runs a slide update, so after the load event the buttons are in step.
\<close>

theorem boundary_requests_and_buttons:
  assumes "started cfg fetched pg = Some s0" and "run evs s0 = Inr s"
  shows "navigateToSlide (- 1) s = Inr s \<and>
         navigateToSlide (int (length (storyData s))) s = Inr s \<and>
         (((\<forall>d. prevBtn s = Some d \<longrightarrow> (d \<longleftrightarrow> currentSlideIndex s = 0)) \<and>
           (\<forall>d. restartBtn s = Some d \<longrightarrow> (d \<longleftrightarrow> currentSlideIndex s = 0)) \<and>
           (\<forall>d. nextBtn s = Some d \<longrightarrow>
                 (d \<longleftrightarrow> currentSlideIndex s = int (length (storyData s)) - 1))) \<or>
          buttonsAsDeclared pg s) \<and>
         (MapLoad \<in> set evs \<longrightarrow>
           (\<forall>d. prevBtn s = Some d \<longrightarrow> (d \<longleftrightarrow> currentSlideIndex s = 0)) \<and>
           (\<forall>d. restartBtn s = Some d \<longrightarrow> (d \<longleftrightarrow> currentSlideIndex s = 0)) \<and>
           (\<forall>d. nextBtn s = Some d \<longrightarrow>
                 (d \<longleftrightarrow> currentSlideIndex s = int (length (storyData s)) - 1)))"
proof -
  have ok: "(\<forall>d. prevBtn s = Some d \<longrightarrow> (d \<longleftrightarrow> currentSlideIndex s = 0)) \<and>
           (\<forall>d. restartBtn s = Some d \<longrightarrow> (d \<longleftrightarrow> currentSlideIndex s = 0)) \<and>
           (\<forall>d. nextBtn s = Some d \<longrightarrow>
                 (d \<longleftrightarrow> currentSlideIndex s = int (length (storyData s)) - 1))"
    if "buttonsOk s"
    using that by (auto simp: buttonsOk_def)
  have n: "navigateToSlide (- 1) s = Inr s" "navigateToSlide (int (length (storyData s))) s = Inr s"
    by (simp_all add: navigateToSlide_def)
  from started_invariant(1)[OF assms(1)] have i0: "invariant s0" .
  from run_buttons[OF i0 _ assms(2), of pg] started_buttonsAsDeclared[OF assms(1)]
  have b: "buttonsOk s \<or> buttonsAsDeclared pg s" by blast
  from run_invariant[OF i0, of evs] assms(2)
  have l: "MapLoad \<in> set evs \<longrightarrow> buttonsOk s" by (auto simp: invariant_def)
  from n b l ok show ?thesis by blast
qed

theorem boundary_requests_and_buttons_witness:
  "navigateToSlide (- 1) demoLoaded = Inr demoLoaded \<and>
   navigateToSlide 3 demoLoaded = Inr demoLoaded \<and>
   currentSlideIndex demoLoaded = 0 \<and>
   prevBtn demoLoaded = Some True \<and> restartBtn demoLoaded = Some True \<and>
   nextBtn demoLoaded = Some False"
proof -
  have m: "MapLoad \<in> set [MapLoad]" by simp
  have c: "currentSlideIndex demoLoaded = 0" "length (storyData demoLoaded) = 3"
    by code_simp+
  have b: "prevBtn demoLoaded \<noteq> None" "restartBtn demoLoaded \<noteq> None" "nextBtn demoLoaded \<noteq> None"
    by code_simp+
  from boundary_requests_and_buttons[OF started_demo run_demoLoaded] m c b
  show ?thesis by auto
qed

text \<open>
  C7 as stated fails before the first slide update: the started demo instance is at
  index 0 and its previous and restart buttons are enabled, as the page declared them.
\<close>

theorem buttons_enabled_before_first_update:
  "started demoConfig (Inl TypeError) demoPage = Some demoStory \<and>
   run [] demoStory = Inr demoStory \<and> currentSlideIndex demoStory = 0 \<and>
   prevBtn demoStory = Some False \<and> restartBtn demoStory = Some False"
  using started_demo by (simp add: demoStory_def)

section \<open>Requests without direction are carried out\<close>

lemma moveMarker_sources [simp]:
  "(inactiveMarkers (moveMarkerToInactive i s) = None) = (inactiveMarkers s = None)"
  "(inactiveMarkers (moveMarkerToActive i s) = None) = (inactiveMarkers s = None)"
  by (auto simp: moveMarkerToInactive_def moveMarkerToActive_def Let_def
      split: option.splits list.splits)

lemma updateMarkerColors_keeps:
  assumes "updateMarkerColors s = Inr s'"
  shows "displayed s' = displayed s \<and> restartBtn s' = restartBtn s \<and>
         (inactiveMarkers s' = None \<longleftrightarrow> inactiveMarkers s = None)"
proof -
  define s1 where "s1 = (case getPreviouslyActiveMarkerIndex s of
                  None \<Rightarrow> s
                | Some p \<Rightarrow> if p \<noteq> currentSlideIndex s then moveMarkerToInactive p s else s)"
  have f: "displayed s1 = displayed s" "restartBtn s1 = restartBtn s"
    "(inactiveMarkers s1 = None) = (inactiveMarkers s = None)"
    by (simp_all add: s1_def split: option.splits)
  from assms have "s' = s1 \<or> s' = moveMarkerToActive (currentSlideIndex s1) s1"
    by (auto simp: updateMarkerColors_def Let_def s1_def[symmetric]
        split: if_splits option.splits)
  with f show ?thesis by auto
qed

lemma updateSlide_none_effect:
  "\<exists>s'. updateSlide DirNone s = Inr s' \<and> isAnimating s' = isAnimating s \<and>
        timers s' = timers s \<and> currentSlideIndex s' = currentSlideIndex s \<and>
        storyData s' = storyData s \<and> contentWrapper s' = contentWrapper s \<and>
        (restartBtn s' = None \<longleftrightarrow> restartBtn s = None) \<and>
        (inactiveMarkers s' = None \<longleftrightarrow> inactiveMarkers s = None) \<and>
        (contentWrapper s \<longrightarrow> slideAt (storyData s) (currentSlideIndex s) \<noteq> None \<longrightarrow>
           displayed s' = slideAt (storyData s) (currentSlideIndex s))"
proof (cases "slideAt (storyData s) (currentSlideIndex s)")
  case None
  then show ?thesis by (simp add: updateSlide_def)
next
  case (Some sl)
  define v where "v = (if isValidLocation (location sl)
                       then flyToSlide (currentSlideIndex (updateContent sl DirNone s))
                              (updateContent sl DirNone s)
                       else updateContent sl DirNone s)"
  define u where "u = updateLineColors (updateButtonStates v)"
  have us: "updateSlide DirNone s = updateMarkerColors u"
    using Some by (simp add: updateSlide_def Let_def updateMapElements_def u_def v_def)
  have dc: "displayed (updateContent sl DirNone s) = (if contentWrapper s then Some sl else displayed s)"
    by (simp add: updateContent_def updateSlideContent_def)
  have fu: "storyData u = storyData s" "currentSlideIndex u = currentSlideIndex s"
    "contentWrapper u = contentWrapper s" "isAnimating u = isAnimating s" "timers u = timers s"
    "(restartBtn u = None) = (restartBtn s = None)"
    "(inactiveMarkers u = None) = (inactiveMarkers s = None)"
    "displayed u = (if contentWrapper s then Some sl else displayed s)"
    by (simp_all add: u_def v_def updateContent_isAnimating updateContent_timers
        updateButtonStates_buttons dc)
  have "slideAt (storyData u) (currentSlideIndex u) = Some sl"
    using Some fu by simp
  from updateMarkerColors_frame[OF this] obtain s' where
    m: "updateMarkerColors u = Inr s'" and f': "isAnimating s' = isAnimating u"
    "timers s' = timers u" "currentSlideIndex s' = currentSlideIndex u"
    "storyData s' = storyData u" "contentWrapper s' = contentWrapper u"
    by blast
  from updateMarkerColors_keeps[OF m] us m f' fu Some show ?thesis
    by simp
qed

lemma navigateToSlide_accepted:
  assumes "\<not> isAnimating s" "0 \<le> i" "i < int (length (storyData s))"
  shows "\<exists>s'. navigateToSlide i s = Inr s' \<and> \<not> isAnimating s' \<and> timers s' = timers s \<and>
              currentSlideIndex s' = i \<and> storyData s' = storyData s \<and>
              (restartBtn s' = None \<longleftrightarrow> restartBtn s = None) \<and>
              (inactiveMarkers s' = None \<longleftrightarrow> inactiveMarkers s = None) \<and>
              (contentWrapper s \<longrightarrow> displayed s' = slideAt (storyData s) i)"
proof -
  have "slideAt (storyData s) i \<noteq> None" using assms by (simp add: slideAt_def)
  with updateSlide_none_effect[of "s\<lparr>currentSlideIndex := i\<rparr>"] assms show ?thesis
    by (auto simp: navigateToSlide_def)
qed

lemma restart_accepted:
  assumes "\<not> isAnimating s"
  shows "\<exists>s'. restart s = Inr s' \<and> \<not> isAnimating s' \<and> timers s' = timers s \<and>
              currentSlideIndex s' = 0 \<and> storyData s' = storyData s \<and>
              (restartBtn s' = None \<longleftrightarrow> restartBtn s = None) \<and>
              (inactiveMarkers s' = None \<longleftrightarrow> inactiveMarkers s = None) \<and>
              (contentWrapper s \<longrightarrow> storyData s \<noteq> [] \<longrightarrow> displayed s' = slideAt (storyData s) 0)"
proof -
  define s2 where "s2 = (case findIndex (\<lambda>sl. isValidLocation (location sl)) (storyData s) of
                        None \<Rightarrow> s\<lparr>currentSlideIndex := 0\<rparr>
                      | Some k \<Rightarrow> flyToSlide (int k) (s\<lparr>currentSlideIndex := 0\<rparr>))"
  have f: "isAnimating s2 = isAnimating s" "timers s2 = timers s" "currentSlideIndex s2 = 0"
    "storyData s2 = storyData s" "restartBtn s2 = restartBtn s"
    "inactiveMarkers s2 = inactiveMarkers s" "contentWrapper s2 = contentWrapper s"
    by (simp_all add: s2_def split: option.splits)
  have r: "restart s = updateSlide DirNone s2"
    using assms by (simp add: restart_def s2_def Let_def)
  have "slideAt (storyData s) 0 \<noteq> None" if "storyData s \<noteq> []"
    using that by (simp add: slideAt_def)
  with updateSlide_none_effect[of s2] f r assms show ?thesis
    by auto
qed

lemma onMarkerClick_accepted:
  assumes "\<not> isAnimating s" "0 \<le> slideIndex f" "slideIndex f < int (length (storyData s))"
  shows "\<exists>s'. onMarkerClick (f # fs) s = Inr s' \<and> \<not> isAnimating s' \<and> timers s' = timers s \<and>
              currentSlideIndex s' = slideIndex f \<and> storyData s' = storyData s \<and>
              (restartBtn s' = None \<longleftrightarrow> restartBtn s = None) \<and>
              (inactiveMarkers s' = None \<longleftrightarrow> inactiveMarkers s = None) \<and>
              (contentWrapper s \<longrightarrow> slideIndex f \<noteq> currentSlideIndex s \<longrightarrow>
                 displayed s' = slideAt (storyData s) (slideIndex f))"
proof (cases "slideIndex f = currentSlideIndex s")
  case True
  with assms show ?thesis by (simp add: onMarkerClick_def)
next
  case False
  with navigateToSlide_accepted[OF assms] assms(1) show ?thesis
    by (simp add: onMarkerClick_def)
qed

lemma jump_accepted:
  assumes idle: "\<not> isAnimating s" and t: "jumpTarget ev = Some t"
    and r: "0 \<le> t" "t < int (length (storyData s))"
    and b: "restartBtn s \<noteq> None" and m: "inactiveMarkers s \<noteq> None"
  shows "\<exists>s'. handle ev s = Inr s' \<and> \<not> isAnimating s' \<and> timers s' = timers s \<and>
              currentSlideIndex s' = t \<and> storyData s' = storyData s \<and>
              restartBtn s' \<noteq> None \<and> inactiveMarkers s' \<noteq> None"
proof (cases ev)
  case (GoToSlide i)
  with t have "i = t" by simp
  with GoToSlide navigateToSlide_accepted[OF idle r] b m show ?thesis by auto
next
  case ClickRestart
  with t have "t = 0" by simp
  with ClickRestart restart_accepted[OF idle] b m show ?thesis by auto
next
  case (MarkerClick gs)
  with t obtain f fs where g: "gs = f # fs" "slideIndex f = t"
    by (cases gs) auto
  from onMarkerClick_accepted[of s f fs] idle r g b m MarkerClick show ?thesis
    by auto
qed (use t in simp_all)

lemma jump_sequence:
  assumes "\<not> isAnimating s"
    and "\<forall>ev\<in>set evs. \<exists>t. jumpTarget ev = Some t \<and> 0 \<le> t \<and> t < int (length (storyData s))"
    and "restartBtn s \<noteq> None" and "inactiveMarkers s \<noteq> None"
  shows "\<exists>s'. run evs s = Inr s' \<and> \<not> isAnimating s' \<and> timers s' = timers s \<and>
              Some (currentSlideIndex s') = last (Some (currentSlideIndex s) # map jumpTarget evs)"
  using assms
proof (induction evs arbitrary: s)
  case Nil
  then show ?case by simp
next
  case (Cons ev evs)
  from Cons.prems(2) obtain t where t: "jumpTarget ev = Some t" "0 \<le> t"
    "t < int (length (storyData s))" by auto
  from jump_accepted[OF Cons.prems(1) t Cons.prems(3,4)] obtain s1 where
    h: "handle ev s = Inr s1" and i1: "\<not> isAnimating s1" and t1: "timers s1 = timers s"
    and c1: "currentSlideIndex s1 = t" and sd: "storyData s1 = storyData s"
    and b1: "restartBtn s1 \<noteq> None" and m1: "inactiveMarkers s1 \<noteq> None"
    by blast
  from Cons.prems(2) sd
  have "\<forall>ev\<in>set evs. \<exists>t. jumpTarget ev = Some t \<and> 0 \<le> t \<and> t < int (length (storyData s1))"
    by simp
  from Cons.IH[OF i1 this b1 m1] obtain s' where
    "run evs s1 = Inr s'" "\<not> isAnimating s'" "timers s' = timers s1"
    "Some (currentSlideIndex s') = last (Some (currentSlideIndex s1) # map jumpTarget evs)"
    by blast
  with h t1 c1 t(1) show ?case by (auto simp: andThen_def)
qed

text \<open>
  C10. A request with direction \<open>none\<close> (\<open>navigateToSlide\<close>/\<open>goToSlide\<close>, \<open>restart\<close>, a marker
  click, a plain \<open>updateSlide()\<close> as after a language switch) returns without an error and
  leaves \<open>isAnimating\<close> and the pending timers as they were. From an idle state it is
  carried out: the current index becomes the requested slide (0 for \<open>restart\<close>, the clicked
  marker's slide for a click) and, where the content wrapper exists, that slide's content is
  shown at once. Hence from an idle state any sequence of \<open>goToSlide\<close> requests, restart
  clicks and marker clicks with targets in range is accepted request by request and ends
  idle on the last target. A handler that turns \<open>isAnimating\<close> on is a previous or next
  request (button, arrow key or method), and then animations are enabled (and the content
  wrapper exists).
\<close>

theorem jumps_never_lock:
  "(\<exists>s'. navigateToSlide i s = Inr s' \<and> isAnimating s' = isAnimating s \<and> timers s' = timers s \<and>
      (\<not> isAnimating s \<longrightarrow> 0 \<le> i \<longrightarrow> i < int (length (storyData s)) \<longrightarrow>
         currentSlideIndex s' = i \<and>
         (contentWrapper s \<longrightarrow> displayed s' = slideAt (storyData s) i))) \<and>
   (\<exists>s'. restart s = Inr s' \<and> isAnimating s' = isAnimating s \<and> timers s' = timers s \<and>
      (\<not> isAnimating s \<longrightarrow>
         currentSlideIndex s' = 0 \<and>
         (contentWrapper s \<longrightarrow> storyData s \<noteq> [] \<longrightarrow> displayed s' = slideAt (storyData s) 0))) \<and>
   (\<exists>s'. onMarkerClick fs s = Inr s' \<and> isAnimating s' = isAnimating s \<and> timers s' = timers s \<and>
      (\<forall>f gs. fs = f # gs \<longrightarrow> \<not> isAnimating s \<longrightarrow>
         0 \<le> slideIndex f \<longrightarrow> slideIndex f < int (length (storyData s)) \<longrightarrow>
         currentSlideIndex s' = slideIndex f \<and>
         (contentWrapper s \<longrightarrow> slideIndex f \<noteq> currentSlideIndex s \<longrightarrow>
            displayed s' = slideAt (storyData s) (slideIndex f)))) \<and>
   (\<exists>s'. updateSlide DirNone s = Inr s' \<and> isAnimating s' = isAnimating s \<and> timers s' = timers s \<and>
      currentSlideIndex s' = currentSlideIndex s \<and>
      (contentWrapper s \<longrightarrow> slideAt (storyData s) (currentSlideIndex s) \<noteq> None \<longrightarrow>
         displayed s' = slideAt (storyData s) (currentSlideIndex s))) \<and>
   (\<not> isAnimating s \<longrightarrow> (\<forall>t\<in>set ts. 0 \<le> t \<and> t < int (length (storyData s))) \<longrightarrow>
      (\<exists>s'. run (map GoToSlide ts) s = Inr s' \<and> \<not> isAnimating s' \<and>
            currentSlideIndex s' = last (currentSlideIndex s # ts))) \<and>
   (\<not> isAnimating s \<longrightarrow> restartBtn s \<noteq> None \<longrightarrow> inactiveMarkers s \<noteq> None \<longrightarrow>
      (\<forall>ev\<in>set evs. \<exists>t. jumpTarget ev = Some t \<and> 0 \<le> t \<and> t < int (length (storyData s))) \<longrightarrow>
      (\<exists>s'. run evs s = Inr s' \<and> \<not> isAnimating s' \<and> timers s' = timers s \<and>
            Some (currentSlideIndex s') = last (Some (currentSlideIndex s) # map jumpTarget evs))) \<and>
   (\<forall>s'. handle ev s = Inr s' \<longrightarrow> \<not> isAnimating s \<longrightarrow> isAnimating s' \<longrightarrow>
      animations s \<and> contentWrapper s \<and>
      ev \<in> {ClickPrev, ClickNext, KeyDown ArrowLeft, KeyDown ArrowRight, ApiNext, ApiPrevious})"
proof -
  have p1: "\<exists>s'. navigateToSlide i s = Inr s' \<and> isAnimating s' = isAnimating s \<and> timers s' = timers s \<and>
      (\<not> isAnimating s \<longrightarrow> 0 \<le> i \<longrightarrow> i < int (length (storyData s)) \<longrightarrow>
         currentSlideIndex s' = i \<and>
         (contentWrapper s \<longrightarrow> displayed s' = slideAt (storyData s) i))"
  proof (cases "\<not> isAnimating s \<and> 0 \<le> i \<and> i < int (length (storyData s))")
    case True
    with navigateToSlide_accepted[of s i] show ?thesis by auto
  next
    case False
    with navigateToSlide_none[of i s] show ?thesis by auto
  qed
  have p2: "\<exists>s'. restart s = Inr s' \<and> isAnimating s' = isAnimating s \<and> timers s' = timers s \<and>
      (\<not> isAnimating s \<longrightarrow>
         currentSlideIndex s' = 0 \<and>
         (contentWrapper s \<longrightarrow> storyData s \<noteq> [] \<longrightarrow> displayed s' = slideAt (storyData s) 0))"
  proof (cases "isAnimating s")
    case True
    with restart_none[of s] show ?thesis by auto
  next
    case False
    with restart_accepted[of s] show ?thesis by auto
  qed
  have p3: "\<exists>s'. onMarkerClick fs s = Inr s' \<and> isAnimating s' = isAnimating s \<and> timers s' = timers s \<and>
      (\<forall>f gs. fs = f # gs \<longrightarrow> \<not> isAnimating s \<longrightarrow>
         0 \<le> slideIndex f \<longrightarrow> slideIndex f < int (length (storyData s)) \<longrightarrow>
         currentSlideIndex s' = slideIndex f \<and>
         (contentWrapper s \<longrightarrow> slideIndex f \<noteq> currentSlideIndex s \<longrightarrow>
            displayed s' = slideAt (storyData s) (slideIndex f)))"
  proof (cases fs)
    case Nil
    with onMarkerClick_none[of fs s] show ?thesis by auto
  next
    case (Cons f gs)
    show ?thesis
    proof (cases "\<not> isAnimating s \<and> 0 \<le> slideIndex f \<and> slideIndex f < int (length (storyData s))")
      case True
      with onMarkerClick_accepted[of s f gs] Cons show ?thesis by auto
    next
      case False
      with onMarkerClick_none[of fs s] Cons show ?thesis by auto
    qed
  qed
  have p4: "\<exists>s'. updateSlide DirNone s = Inr s' \<and> isAnimating s' = isAnimating s \<and> timers s' = timers s \<and>
      currentSlideIndex s' = currentSlideIndex s \<and>
      (contentWrapper s \<longrightarrow> slideAt (storyData s) (currentSlideIndex s) \<noteq> None \<longrightarrow>
         displayed s' = slideAt (storyData s) (currentSlideIndex s))"
    using updateSlide_none_effect[of s] by blast
  have p5: "\<not> isAnimating s \<longrightarrow> (\<forall>t\<in>set ts. 0 \<le> t \<and> t < int (length (storyData s))) \<longrightarrow>
      (\<exists>s'. run (map GoToSlide ts) s = Inr s' \<and> \<not> isAnimating s' \<and>
            currentSlideIndex s' = last (currentSlideIndex s # ts))"
    using goToSlide_sequence[of s ts] by blast
  have p6: "\<not> isAnimating s \<longrightarrow> restartBtn s \<noteq> None \<longrightarrow> inactiveMarkers s \<noteq> None \<longrightarrow>
      (\<forall>ev\<in>set evs. \<exists>t. jumpTarget ev = Some t \<and> 0 \<le> t \<and> t < int (length (storyData s))) \<longrightarrow>
      (\<exists>s'. run evs s = Inr s' \<and> \<not> isAnimating s' \<and> timers s' = timers s \<and>
            Some (currentSlideIndex s') = last (Some (currentSlideIndex s) # map jumpTarget evs))"
    using jump_sequence[of s evs] by blast
  have p7: "animations s \<and> contentWrapper s \<and>
      ev \<in> {ClickPrev, ClickNext, KeyDown ArrowLeft, KeyDown ArrowRight, ApiNext, ApiPrevious}"
    if h: "handle ev s = Inr s'" and idle: "\<not> isAnimating s" and busy: "isAnimating s'" for s'
  proof (cases ev)
    case ClickPrev
    with h idle busy have "navigatePrevious s = Inr s'" by (auto split: if_splits)
    from navigatePrevious_locks[OF this busy idle] ClickPrev show ?thesis by simp
  next
    case ClickNext
    with h idle busy have "navigateNext s = Inr s'" by (auto split: if_splits)
    from navigateNext_locks[OF this busy idle] ClickNext show ?thesis by simp
  next
    case ClickRestart
    with h have "s' = s \<or> restart s = Inr s'" by (auto split: if_splits)
    with restart_none[of s] idle busy show ?thesis by auto
  next
    case (KeyDown k)
    show ?thesis
    proof (cases k)
      case ArrowLeft
      with KeyDown h idle busy have "navigatePrevious s = Inr s'"
        by (auto simp: onKeyDown_def split: if_splits)
      from navigatePrevious_locks[OF this busy idle] KeyDown ArrowLeft show ?thesis by simp
    next
      case ArrowRight
      with KeyDown h idle busy have "navigateNext s = Inr s'"
        by (auto simp: onKeyDown_def split: if_splits)
      from navigateNext_locks[OF this busy idle] KeyDown ArrowRight show ?thesis by simp
    next
      case OtherKey
      with KeyDown h idle busy show ?thesis by (auto simp: onKeyDown_def split: if_splits)
    qed
  next
    case (MarkerClick gs)
    with h have "s' = s \<or> onMarkerClick gs s = Inr s'" by (auto split: if_splits)
    with onMarkerClick_none[of gs s] idle busy show ?thesis by auto
  next
    case (GoToSlide j)
    with h have "navigateToSlide j s = Inr s'" by simp
    with navigateToSlide_none[of j s] idle busy show ?thesis by auto
  next
    case ApiNext
    with h have "navigateNext s = Inr s'" by simp
    from navigateNext_locks[OF this busy idle] ApiNext show ?thesis by simp
  next
    case ApiPrevious
    with h have "navigatePrevious s = Inr s'" by simp
    from navigatePrevious_locks[OF this busy idle] ApiPrevious show ?thesis by simp
  next
    case TimerFires
    with h have "s' = fireTimer s" by simp
    with idle busy fireTimer_not_locks[of s] show ?thesis by auto
  next
    case MapLoad
    with h have "s' = s \<or> onMapLoad s = Inr s'" by (auto split: if_splits)
    with idle busy onMapLoad_not_locks[of s s'] show ?thesis by auto
  qed
  from p1 p2 p3 p4 p5 p6 p7 show ?thesis by blast
qed

theorem jumps_never_lock_witness:
  "\<not> isAnimating demoLoaded \<and> contentWrapper demoLoaded \<and> currentSlideIndex demoLoaded = 0 \<and>
   (\<exists>s'. navigateToSlide 2 demoLoaded = Inr s' \<and> \<not> isAnimating s' \<and>
         timers s' = timers demoLoaded \<and> currentSlideIndex s' = 2 \<and>
         displayed s' = Some \<lparr>headline = ''Rome'', location = demoLocation 41 12 False\<rparr>) \<and>
   (\<exists>s'. restart demoLoaded = Inr s' \<and> \<not> isAnimating s' \<and> currentSlideIndex s' = 0 \<and>
         displayed s' = Some \<lparr>headline = ''London'', location = demoLocation 51 0 True\<rparr>) \<and>
   (\<exists>s'. onMarkerClick [\<lparr>slideIndex = 1, isActive = False, isClickable = True,
                          coordinates = (Finite 2, Finite 48)\<rparr>] demoLoaded = Inr s' \<and>
         \<not> isAnimating s' \<and> currentSlideIndex s' = 1 \<and>
         displayed s' = Some \<lparr>headline = ''Paris'', location = demoLocation 48 2 False\<rparr>) \<and>
   (\<exists>s'. run (map GoToSlide [2, 0, 1]) demoLoaded = Inr s' \<and> \<not> isAnimating s' \<and>
         currentSlideIndex s' = 1) \<and>
   (\<exists>s'. run [GoToSlide 2,
              MarkerClick [\<lparr>slideIndex = 1, isActive = False, isClickable = True,
                            coordinates = (Finite 2, Finite 48)\<rparr>],
              ClickRestart] demoLoaded = Inr s' \<and>
         \<not> isAnimating s' \<and> currentSlideIndex s' = 0) \<and>
   handle ClickNext demoLoaded = Inr demoAnimating \<and> isAnimating demoAnimating \<and>
   animations demoLoaded"
proof -
  let ?f1 = "\<lparr>slideIndex = 1, isActive = False, isClickable = True,
               coordinates = (Finite 2, Finite 48)\<rparr>"
  let ?evs = "[GoToSlide 2, MarkerClick [?f1], ClickRestart]"
  have idle: "\<not> isAnimating demoLoaded" by code_simp
  have cw: "contentWrapper demoLoaded" by code_simp
  have cur: "currentSlideIndex demoLoaded = 0" by code_simp
  have sd: "storyData demoLoaded = demoSlides" by code_simp
  have len: "length demoSlides = 3" by (simp add: demoSlides_def)
  have sl: "slideAt demoSlides 2 = Some \<lparr>headline = ''Rome'', location = demoLocation 41 12 False\<rparr>"
    "slideAt demoSlides 0 = Some \<lparr>headline = ''London'', location = demoLocation 51 0 True\<rparr>"
    "slideAt demoSlides 1 = Some \<lparr>headline = ''Paris'', location = demoLocation 48 2 False\<rparr>"
    by (simp_all add: slideAt_def demoSlides_def)
  have ne: "demoSlides \<noteq> []" by (simp add: demoSlides_def)
  have rb: "restartBtn demoLoaded \<noteq> None" by code_simp
  have im: "inactiveMarkers demoLoaded \<noteq> None" by code_simp
  have h: "handle ClickNext demoLoaded = Inr demoAnimating" by code_simp
  have busy: "isAnimating demoAnimating" by code_simp
  have rng: "\<forall>t\<in>set [2, 0, 1]. 0 \<le> t \<and> t < int (length (storyData demoLoaded))"
    by (simp add: sd len)
  have jmp: "\<forall>ev\<in>set ?evs. \<exists>t. jumpTarget ev = Some t \<and> 0 \<le> t \<and>
                 t < int (length (storyData demoLoaded))"
    by (simp add: sd len)
  note t = jumps_never_lock[of 2 demoLoaded "[?f1]" "[2, 0, 1]" ?evs ClickNext]
  from t idle cw have a: "\<exists>s'. navigateToSlide 2 demoLoaded = Inr s' \<and> \<not> isAnimating s' \<and>
         timers s' = timers demoLoaded \<and> currentSlideIndex s' = 2 \<and>
         displayed s' = Some \<lparr>headline = ''Rome'', location = demoLocation 41 12 False\<rparr>"
    by (auto simp: sd len sl)
  from t idle cw ne have b: "\<exists>s'. restart demoLoaded = Inr s' \<and> \<not> isAnimating s' \<and>
         currentSlideIndex s' = 0 \<and>
         displayed s' = Some \<lparr>headline = ''London'', location = demoLocation 51 0 True\<rparr>"
    by (auto simp: sd len sl)
  from t[THEN conjunct2, THEN conjunct2, THEN conjunct1] idle cw cur
  have c: "\<exists>s'. onMarkerClick [?f1] demoLoaded = Inr s' \<and>
         \<not> isAnimating s' \<and> currentSlideIndex s' = 1 \<and>
         displayed s' = Some \<lparr>headline = ''Paris'', location = demoLocation 48 2 False\<rparr>"
    by (auto simp: sd len sl)
  from t idle rng have d: "\<exists>s'. run (map GoToSlide [2, 0, 1]) demoLoaded = Inr s' \<and>
         \<not> isAnimating s' \<and> currentSlideIndex s' = 1"
    by auto
  from t idle rb im jmp have e: "\<exists>s'. run ?evs demoLoaded = Inr s' \<and>
         \<not> isAnimating s' \<and> currentSlideIndex s' = 0"
    by auto
  from t h idle busy have f: "animations demoLoaded"
    by blast
  from idle cw cur a b c d e h busy f show ?thesis by blast
qed

end
